theory Spec2Isabelle
  imports Complex_Main "HOL-Library.AList"
begin

section \<open>Exceptions, randomness and the clock\<close>

text \<open>
  The Python exceptions the modelled code can raise. A function that can raise returns
  \<open>error + 'a\<close>, with \<open>Inl\<close> for the exception. The state at the moment of the raise
  is not returned.
\<close>

datatype error = KeyError | ValueError | TypeError | AttributeError | IndexError

text \<open>
  The environment of a run: the raw draws that the module \<open>random\<close> will consume, one per
  call, and the successive readings of \<open>time.time()\<close>, one per call. Both are infinite
  sequences; a call takes the head and leaves the tail. The clock readings are reals:
  rounding of floating-point seconds is not modelled.
\<close>

record env =
  draws :: "nat \<Rightarrow> nat"
  readings :: "nat \<Rightarrow> real"

definition next_draw :: "env \<Rightarrow> nat \<times> env" where
  "next_draw w = (draws w 0, w\<lparr>draws := (\<lambda>n. draws w (Suc n))\<rparr>)"

text \<open>\<open>time.time()\<close>\<close>

definition time_time :: "env \<Rightarrow> real \<times> env" where
  "time_time w = (readings w 0, w\<lparr>readings := (\<lambda>n. readings w (Suc n))\<rparr>)"

text \<open>
  \<open>random.randint(a, b)\<close>: an integer of the closed interval from \<open>a\<close> to \<open>b\<close>;
  \<open>ValueError\<close> on an empty interval. Every value of the interval is the result for some
  raw draw.
\<close>

definition randint :: "int \<Rightarrow> int \<Rightarrow> env \<Rightarrow> error + (int \<times> env)" where
  "randint a b w =
     (if b < a then Inl ValueError
      else Inr (a + int (fst (next_draw w) mod nat (b - a + 1)), snd (next_draw w)))"

text \<open>\<open>random.choice(seq)\<close>: \<open>IndexError\<close> on an empty sequence.\<close>

definition choice :: "'a list \<Rightarrow> env \<Rightarrow> error + ('a \<times> env)" where
  "choice xs w =
     (if xs = [] then Inl IndexError
      else Inr (xs ! (fst (next_draw w) mod length xs), snd (next_draw w)))"

section \<open>Game balancing constants\<close>

record class_stats =
  cs_max_hp :: int
  cs_base_attack :: int
  skill_name :: string

definition CLASS_STATS :: "(string \<times> class_stats) list" where
  "CLASS_STATS =
     [(''warrior'', \<lparr>cs_max_hp = 120, cs_base_attack = 8, skill_name = ''Power Strike''\<rparr>),
      (''mage'', \<lparr>cs_max_hp = 80, cs_base_attack = 12, skill_name = ''Arcane Blast''\<rparr>),
      (''rogue'', \<lparr>cs_max_hp = 100, cs_base_attack = 10, skill_name = ''Backstab''\<rparr>)]"

definition HP_PER_LEVEL :: int where
  "HP_PER_LEVEL = 10"

definition ATTACK_PER_LEVEL :: int where
  "ATTACK_PER_LEVEL = 2"

record template =
  t_name :: string
  t_hp :: int
  t_attack_power :: int
  t_exp :: int

definition ENEMY_POOL :: "template list" where
  "ENEMY_POOL =
     [\<lparr>t_name = ''Anti Claws'', t_hp = 100, t_attack_power = 12, t_exp = 50\<rparr>,
      \<lparr>t_name = ''Shadow Beast'', t_hp = 80, t_attack_power = 8, t_exp = 30\<rparr>,
      \<lparr>t_name = ''Angry Turkey'', t_hp = 60, t_attack_power = 6, t_exp = 20\<rparr>,
      \<lparr>t_name = ''Goblin Raider'', t_hp = 70, t_attack_power = 7, t_exp = 25\<rparr>,
      \<lparr>t_name = ''Mountain Troll'', t_hp = 120, t_attack_power = 10, t_exp = 60\<rparr>]"

definition RESPAWN_TIME :: real where
  "RESPAWN_TIME = 10"

section \<open>The player\<close>

text \<open>
  The fields of class \<open>Player\<close>. The field \<open>exp\<close> of the source is \<open>exp_pts\<close> here.
  The dictionary \<open>tasks\<close> is an association list in insertion order, read with \<open>map_of\<close>.
\<close>

record player =
  name :: string
  player_class :: string
  level :: int
  exp_pts :: int
  max_hp :: int
  hp :: int
  base_attack :: int
  inventory :: "string list"
  location :: string
  tasks :: "(string \<times> bool) list"
  pomodoro_streak :: int

definition calculate_attack :: "player \<Rightarrow> int" where
  "calculate_attack p = base_attack p"

definition level_up :: "player \<Rightarrow> player" where
  "level_up p =
     p\<lparr>level := level p + 1,
       max_hp := max_hp p + HP_PER_LEVEL,
       hp := max_hp p + HP_PER_LEVEL,
       base_attack := base_attack p + ATTACK_PER_LEVEL\<rparr>"

text \<open>
  The \<open>while\<close> loop of \<open>add_experience\<close>, with the local variable \<open>required_exp\<close> as
  second argument.
\<close>

function level_loop :: "player \<Rightarrow> int \<Rightarrow> player" where
  "level_loop p required_exp =
     (if required_exp \<le> exp_pts p
      then level_loop ((level_up p)\<lparr>exp_pts := exp_pts (level_up p) - required_exp\<rparr>)
             (level (level_up p) * 100)
      else p)"
  by pat_completeness auto
termination
  by (relation "measures [\<lambda>(p, r). if r = level p * 100 then 0 else 1,
                          \<lambda>(p, r). nat (1 - level p),
                          \<lambda>(p, r). nat (exp_pts p)]")
     (auto simp: level_up_def)

definition add_experience :: "player \<Rightarrow> int \<Rightarrow> player" where
  "add_experience p amount =
     level_loop (p\<lparr>exp_pts := exp_pts p + amount\<rparr>) (level p * 100)"

section \<open>Enemies and rooms\<close>

record enemy =
  e_name :: string
  e_hp :: int
  attack_power :: int
  exp_reward :: int
  alive :: bool

text \<open>\<open>Enemy.__init__\<close>, applied to an entry of the pool as every call site does.\<close>

definition new_enemy :: "template \<Rightarrow> enemy" where
  "new_enemy chosen =
     \<lparr>e_name = t_name chosen, e_hp = t_hp chosen, attack_power = t_attack_power chosen,
      exp_reward = t_exp chosen, alive = True\<rparr>"

definition is_alive :: "enemy \<Rightarrow> bool" where
  "is_alive e = (alive e \<and> 0 < e_hp e)"

text \<open>
  The fields of class \<open>Room\<close>. The dictionary \<open>exits\<close> maps a direction to a room key
  or to \<open>None\<close>; it is an association list read with \<open>map_of\<close>.
\<close>

record room =
  r_name :: string
  description :: string
  exits :: "(string \<times> string option) list"
  items :: "string list"
  enemy :: "enemy option"
  respawn_timer :: real

text \<open>The test \<open>room.enemy and room.enemy.is_alive()\<close> of the source.\<close>

definition has_live_enemy :: "room \<Rightarrow> bool" where
  "has_live_enemy r = (case enemy r of None \<Rightarrow> False | Some e \<Rightarrow> is_alive e)"

definition spawn_enemy :: "room \<Rightarrow> env \<Rightarrow> error + (room \<times> env)" where
  "spawn_enemy r w =
     (if has_live_enemy r then Inr (r, w)
      else
        let current_time = fst (time_time w); w1 = snd (time_time w) in
        if respawn_timer r \<le> current_time
        then (case choice ENEMY_POOL w1 of
                Inl err \<Rightarrow> Inl err
              | Inr (chosen, w2) \<Rightarrow> Inr (r\<lparr>enemy := Some (new_enemy chosen)\<rparr>, w2))
        else Inr (r, w1))"

text \<open>
  \<open>handle_mob_death\<close>: the enemy object is marked dead and then dropped from the room,
  its only holder, so only the cleared reference and the new deadline remain. A room
  without an enemy raises \<open>AttributeError\<close> at \<open>room.enemy.alive\<close>.
\<close>

definition handle_mob_death :: "room \<Rightarrow> env \<Rightarrow> error + (room \<times> env)" where
  "handle_mob_death r w =
     (case enemy r of
        None \<Rightarrow> Inl AttributeError
      | Some e \<Rightarrow>
          Inr (r\<lparr>enemy := None, respawn_timer := fst (time_time w) + RESPAWN_TIME\<rparr>,
               snd (time_time w)))"

definition maybe_respawn_mob :: "room \<Rightarrow> env \<Rightarrow> error + (room \<times> env)" where
  "maybe_respawn_mob r w = spawn_enemy r w"

section \<open>The game state\<close>

text \<open>
  One constructor for each \<open>write_line\<close> call of the modelled commands, carrying the values
  that the source interpolates into the text.
\<close>

datatype msg =
    MsgLocation string
  | MsgDescription string
  | MsgItemsHeader
  | MsgItem string
  | MsgHostile string int
  | MsgExits "string list"
  | MsgCantGo
  | MsgNothingToAttack
  | MsgLash string int int
  | MsgDefeated string
  | MsgGainExp int
  | MsgTaskStun
  | MsgCounter string int int
  | MsgSuccumb
  | MsgFullHealth
  | MsgPatch int int
  | MsgItemNotHere
  | MsgPickUp string
  | MsgNoItem
  | MsgDropped string
  | MsgNotInBag
  | MsgDrink int int
  | MsgCantUse
  | MsgNoEnemyForSkill
  | MsgSkill string int int
  | MsgRetaliates string int int
  | MsgGameOver
  | MsgHelp nat
  | MsgStats player
  | MsgTasks bool bool bool
  | MsgUnknown

text \<open>
  The state the commands work on: the player, the global dictionary \<open>rooms\<close>, and of the
  object \<open>MudGameGUI\<close> the cursor of the automatic movement, the two flags of the timer
  that a command writes, the four widgets that \<open>use_class_skill\<close> disables, and the lines
  written to the output area.
\<close>

record game =
  player :: player
  rooms :: "string \<rightharpoonup> room"
  auto_move_index :: nat
  pomodoro_running :: bool
  pomodoro_in_break :: bool
  btn_save_enabled :: bool
  command_entry_enabled :: bool
  btn_pomo_start_enabled :: bool
  btn_pomo_stop_enabled :: bool
  output_area :: "msg list"

definition auto_move_directions :: "string list" where
  "auto_move_directions = [''north'', ''west'', ''east'', ''south'']"

definition write_line :: "msg \<Rightarrow> game \<Rightarrow> game" where
  "write_line m s = s\<lparr>output_area := output_area s @ [m]\<rparr>"

definition write_lines :: "msg list \<Rightarrow> game \<Rightarrow> game" where
  "write_lines ms s = s\<lparr>output_area := output_area s @ ms\<rparr>"

section \<open>Looking, moving and healing\<close>

text \<open>Truth value of an exit's destination: \<open>None\<close> and the empty string are false.\<close>

definition truthy :: "string option \<Rightarrow> bool" where
  "truthy loc = (case loc of None \<Rightarrow> False | Some k \<Rightarrow> k \<noteq> [])"

definition look_around :: "game \<Rightarrow> env \<Rightarrow> error + (game \<times> env)" where
  "look_around s w =
     (case rooms s (location (player s)) of
        None \<Rightarrow> Inl KeyError
      | Some room0 \<Rightarrow>
          (case maybe_respawn_mob room0 w of
             Inl err \<Rightarrow> Inl err
           | Inr (room, w1) \<Rightarrow>
               Inr (write_lines
                      ([MsgLocation (r_name room), MsgDescription (description room)]
                       @ (if items room \<noteq> [] then MsgItemsHeader # map MsgItem (items room)
                          else [])
                       @ (case enemy room of
                            None \<Rightarrow> []
                          | Some e \<Rightarrow> if is_alive e then [MsgHostile (e_name e) (e_hp e)] else [])
                       @ [MsgExits (map fst (filter (\<lambda>(ex, loc). truthy loc) (exits room)))])
                      (s\<lparr>rooms := (rooms s)(location (player s) \<mapsto> room)\<rparr>),
                    w1)))"

definition move_player :: "game \<Rightarrow> string \<Rightarrow> env \<Rightarrow> error + (game \<times> env)" where
  "move_player s direction w =
     (case rooms s (location (player s)) of
        None \<Rightarrow> Inl KeyError
      | Some room \<Rightarrow>
          (case map_of (exits room) direction of
             None \<Rightarrow> Inr (write_line MsgCantGo s, w)
           | Some None \<Rightarrow> Inr (write_line MsgCantGo s, w)
           | Some (Some new_room_id) \<Rightarrow>
               look_around (s\<lparr>player := (player s)\<lparr>location := new_room_id\<rparr>\<rparr>) w))"

definition heal_player :: "game \<Rightarrow> env \<Rightarrow> error + (game \<times> env)" where
  "heal_player s w =
     (if max_hp (player s) \<le> hp (player s) then Inr (write_line MsgFullHealth s, w)
      else
        (case randint 5 15 w of
           Inl err \<Rightarrow> Inl err
         | Inr (heal_amount, w1) \<Rightarrow>
             let s1 = s\<lparr>player := (player s)
                        \<lparr>hp := min (hp (player s) + heal_amount) (max_hp (player s))\<rparr>\<rparr>
             in Inr (write_line (MsgPatch heal_amount (hp (player s1))) s1, w1)))"

section \<open>Combat\<close>

definition attack_enemy :: "game \<Rightarrow> env \<Rightarrow> error + (game \<times> env)" where
  "attack_enemy s w =
     (case rooms s (location (player s)) of
        None \<Rightarrow> Inl KeyError
      | Some room \<Rightarrow>
          (case enemy room of
             None \<Rightarrow> Inr (write_line MsgNothingToAttack s, w)
           | Some enemy0 \<Rightarrow>
               if \<not> is_alive enemy0 then Inr (write_line MsgNothingToAttack s, w)
               else
                 (case randint (calculate_attack (player s) - 2)
                         (calculate_attack (player s) + 2) w of
                    Inl err \<Rightarrow> Inl err
                  | Inr (roll, w1) \<Rightarrow>
                      let player_damage = (if roll < 0 then 0 else roll);
                          en = enemy0\<lparr>e_hp := e_hp enemy0 - player_damage\<rparr>;
                          s1 = write_line (MsgLash (e_name en) player_damage (e_hp en))
                                 (s\<lparr>rooms := (rooms s)
                                      (location (player s) \<mapsto> room\<lparr>enemy := Some en\<rparr>)\<rparr>)
                      in
                        if e_hp en \<le> 0 then
                          let s2 = write_line (MsgGainExp (exp_reward en))
                                     (write_line (MsgDefeated (e_name en)) s1);
                              p1 = add_experience (player s2) (exp_reward en)
                          in
                            (case map_of (tasks p1) ''stun_opponent'' of
                               None \<Rightarrow> Inl KeyError
                             | Some done \<Rightarrow>
                                 let s3 =
                                   (if \<not> done
                                    then write_line MsgTaskStun
                                           (s2\<lparr>player := p1\<lparr>tasks :=
                                              AList.update ''stun_opponent'' True (tasks p1)\<rparr>\<rparr>)
                                    else s2\<lparr>player := p1\<rparr>)
                                 in
                                   (case handle_mob_death (room\<lparr>enemy := Some en\<rparr>) w1 of
                                      Inl err \<Rightarrow> Inl err
                                    | Inr (room1, w2) \<Rightarrow>
                                        Inr (s3\<lparr>rooms := (rooms s3)
                                               (location (player s) \<mapsto> room1)\<rparr>, w2)))
                        else
                          (case randint 1 (attack_power en) w1 of
                             Inl err \<Rightarrow> Inl err
                           | Inr (enemy_damage, w2) \<Rightarrow>
                               let s2 = s1\<lparr>player := (player s1)
                                          \<lparr>hp := hp (player s1) - enemy_damage\<rparr>\<rparr>;
                                   s3 = write_line
                                          (MsgCounter (e_name en) enemy_damage (hp (player s2))) s2
                               in
                                 if hp (player s3) \<le> 0
                                 then heal_player (write_line MsgSuccumb s3) w2
                                 else Inr (s3, w2)))))"

definition get_class_skill_name :: "player \<Rightarrow> error + string" where
  "get_class_skill_name p =
     (case map_of CLASS_STATS (player_class p) of
        None \<Rightarrow> Inl KeyError
      | Some cs \<Rightarrow> Inr (skill_name cs))"

definition use_class_skill :: "game \<Rightarrow> env \<Rightarrow> error + (game \<times> env)" where
  "use_class_skill s w =
     (case rooms s (location (player s)) of
        None \<Rightarrow> Inl KeyError
      | Some room \<Rightarrow>
          (case enemy room of
             None \<Rightarrow> Inr (write_line MsgNoEnemyForSkill s, w)
           | Some enemy0 \<Rightarrow>
               if \<not> is_alive enemy0 then Inr (write_line MsgNoEnemyForSkill s, w)
               else
                 (case get_class_skill_name (player s) of
                    Inl err \<Rightarrow> Inl err
                  | Inr skill \<Rightarrow>
                 (case randint 10 15 w of
                    Inl err \<Rightarrow> Inl err
                  | Inr (dmg_boost, w1) \<Rightarrow>
                      let en = enemy0\<lparr>e_hp := e_hp enemy0 - dmg_boost\<rparr>;
                          s1 = write_line (MsgSkill skill dmg_boost (e_hp en))
                                 (s\<lparr>rooms := (rooms s)
                                      (location (player s) \<mapsto> room\<lparr>enemy := Some en\<rparr>)\<rparr>)
                      in
                        if e_hp en \<le> 0 then
                          let s2 = write_line (MsgGainExp (exp_reward en))
                                     (write_line (MsgDefeated (e_name en)) s1);
                              p1 = add_experience (player s2) (exp_reward en)
                          in
                            (case map_of (tasks p1) ''stun_opponent'' of
                               None \<Rightarrow> Inl KeyError
                             | Some done \<Rightarrow>
                                 let s3 =
                                   (if \<not> done
                                    then write_line MsgTaskStun
                                           (s2\<lparr>player := p1\<lparr>tasks :=
                                              AList.update ''stun_opponent'' True (tasks p1)\<rparr>\<rparr>)
                                    else s2\<lparr>player := p1\<rparr>)
                                 in
                                   (case handle_mob_death (room\<lparr>enemy := Some en\<rparr>) w1 of
                                      Inl err \<Rightarrow> Inl err
                                    | Inr (room1, w2) \<Rightarrow>
                                        Inr (s3\<lparr>rooms := (rooms s3)
                                               (location (player s) \<mapsto> room1)\<rparr>, w2)))
                        else
                          (case randint 1 (attack_power en) w1 of
                             Inl err \<Rightarrow> Inl err
                           | Inr (retal_damage, w2) \<Rightarrow>
                               let s2 = s1\<lparr>player := (player s1)
                                          \<lparr>hp := hp (player s1) - retal_damage\<rparr>\<rparr>;
                                   s3 = write_line
                                          (MsgRetaliates (e_name en) retal_damage (hp (player s2)))
                                          s2
                               in
                                 if hp (player s3) \<le> 0
                                 then Inr ((write_line MsgGameOver s3)
                                             \<lparr>btn_save_enabled := False,
                                              command_entry_enabled := False,
                                              btn_pomo_start_enabled := False,
                                              btn_pomo_stop_enabled := False,
                                              pomodoro_running := False,
                                              pomodoro_in_break := False\<rparr>, w2)
                                 else Inr (s3, w2))))))"

section \<open>Inventory\<close>

definition pickup_item :: "game \<Rightarrow> string \<Rightarrow> error + game" where
  "pickup_item s item_name =
     (case rooms s (location (player s)) of
        None \<Rightarrow> Inl KeyError
      | Some room \<Rightarrow>
          if item_name \<notin> set (items room) then Inr (write_line MsgItemNotHere s)
          else
            Inr (write_line (MsgPickUp item_name)
                   (s\<lparr>rooms := (rooms s)
                        (location (player s) \<mapsto> room\<lparr>items := remove1 item_name (items room)\<rparr>),
                      player := (player s)
                        \<lparr>inventory := inventory (player s) @ [item_name]\<rparr>\<rparr>)))"

definition drop_item :: "game \<Rightarrow> string \<Rightarrow> error + game" where
  "drop_item s item_name =
     (if item_name \<notin> set (inventory (player s)) then Inr (write_line MsgNoItem s)
      else
        (case rooms s (location (player s)) of
           None \<Rightarrow> Inl KeyError
         | Some room \<Rightarrow>
             Inr (write_line (MsgDropped item_name)
                    (s\<lparr>player := (player s)
                         \<lparr>inventory := remove1 item_name (inventory (player s))\<rparr>,
                       rooms := (rooms s)
                         (location (player s) \<mapsto> room\<lparr>items := items room @ [item_name]\<rparr>)\<rparr>))))"

text \<open>The test \<open>sub in text\<close> on strings: \<open>sub\<close> occurs in \<open>text\<close> as a contiguous part.\<close>

fun str_contains :: "string \<Rightarrow> string \<Rightarrow> bool" where
  "str_contains sub [] = (sub = [])"
| "str_contains sub (c # cs) = (take (length sub) (c # cs) = sub \<or> str_contains sub cs)"

definition use_item :: "game \<Rightarrow> string \<Rightarrow> env \<Rightarrow> error + (game \<times> env)" where
  "use_item s item_name w =
     (if item_name \<notin> set (inventory (player s)) then Inr (write_line MsgNotInBag s, w)
      else if str_contains ''healing_potion'' item_name then
        (case randint 20 40 w of
           Inl err \<Rightarrow> Inl err
         | Inr (heal_amount, w1) \<Rightarrow>
             let s1 = s\<lparr>player := (player s)
                        \<lparr>hp := min (hp (player s) + heal_amount) (max_hp (player s))\<rparr>\<rparr>;
                 s2 = write_line (MsgDrink heal_amount (hp (player s1))) s1
             in Inr (s2\<lparr>player := (player s2)
                         \<lparr>inventory := remove1 item_name (inventory (player s2))\<rparr>\<rparr>, w1))
      else Inr (write_line MsgCantUse s, w))"

section \<open>The automation policy\<close>

definition auto_attack_if_enemy :: "game \<Rightarrow> env \<Rightarrow> error + (game \<times> env)" where
  "auto_attack_if_enemy s w =
     (case rooms s (location (player s)) of
        None \<Rightarrow> Inl KeyError
      | Some room \<Rightarrow> if has_live_enemy room then attack_enemy s w else Inr (s, w))"

text \<open>
  The \<open>for\<close> loop of \<open>auto_move_and_attack\<close>, with the number of iterations left as first
  argument and the dictionary \<open>directions\<close> read before the loop as second. It ends at the
  first move (\<open>break\<close>) or after the last iteration.
\<close>

fun probe_directions ::
  "nat \<Rightarrow> (string \<times> string option) list \<Rightarrow> game \<Rightarrow> env \<Rightarrow> error + (game \<times> env)" where
  "probe_directions 0 directions s w = Inr (s, w)"
| "probe_directions (Suc n) directions s w =
     (if length auto_move_directions \<le> auto_move_index s then Inl IndexError
      else
        let dir = auto_move_directions ! auto_move_index s;
            s1 = s\<lparr>auto_move_index := (auto_move_index s + 1) mod length auto_move_directions\<rparr>
        in
          if (case map_of directions dir of None \<Rightarrow> False | Some loc \<Rightarrow> truthy loc)
          then move_player s1 dir w
          else probe_directions n directions s1 w)"

definition auto_move_and_attack :: "game \<Rightarrow> env \<Rightarrow> error + (game \<times> env)" where
  "auto_move_and_attack s w =
     (case rooms s (location (player s)) of
        None \<Rightarrow> Inl KeyError
      | Some current_room \<Rightarrow>
          if has_live_enemy current_room then auto_attack_if_enemy s w
          else if hp (player s) < max_hp (player s) then heal_player s w
          else if exits current_room = [] then Inr (s, w)
          else
            (case probe_directions (length auto_move_directions) (exits current_room) s w of
               Inl err \<Rightarrow> Inl err
             | Inr (s1, w1) \<Rightarrow> auto_attack_if_enemy s1 w1))"

section \<open>Save and load\<close>

text \<open>
  The values that \<open>json.dump\<close> writes and \<open>json.load\<close> reads back. The file holds one such
  value, or does not exist; the text encoding between the two library calls is not
  modelled.
\<close>

datatype json =
    JNull
  | JBool bool
  | JInt int
  | JStr string
  | JList "json list"
  | JObj "(string \<times> json) list"

definition save_game :: "player \<Rightarrow> json option" where
  "save_game p =
     Some (JObj
       [(''name'', JStr (name p)),
        (''player_class'', JStr (player_class p)),
        (''level'', JInt (level p)),
        (''exp'', JInt (exp_pts p)),
        (''max_hp'', JInt (max_hp p)),
        (''hp'', JInt (hp p)),
        (''base_attack'', JInt (base_attack p)),
        (''inventory'', JList (map JStr (inventory p))),
        (''location'', JStr (location p)),
        (''tasks'', JObj (map (\<lambda>(k, v). (k, JBool v)) (tasks p))),
        (''pomodoro_streak'', JInt (pomodoro_streak p))])"

text \<open>\<open>str.lower()\<close> on the letters A to Z; every other character is kept.\<close>

definition lower_char :: "char \<Rightarrow> char" where
  "lower_char c =
     (if (65::nat) \<le> of_char c \<and> of_char c \<le> (90::nat) then char_of (of_char c + (32::nat))
      else c)"

definition lower :: "string \<Rightarrow> string" where
  "lower cs = map lower_char cs"

text \<open>
  \<open>Player.__init__\<close>. The arguments \<open>inventory\<close> and \<open>tasks\<close> may be \<open>None\<close>; an empty
  \<open>tasks\<close> dictionary is replaced by the default one as well.
\<close>

definition default_tasks :: "(string \<times> bool) list" where
  "default_tasks =
     [(''complete_daily_job'', False), (''drink_from_stream'', False), (''stun_opponent'', False)]"

definition Player_init ::
  "string \<Rightarrow> string \<Rightarrow> int \<Rightarrow> int \<Rightarrow> int \<Rightarrow> int \<Rightarrow> int \<Rightarrow> string list option \<Rightarrow> string
     \<Rightarrow> (string \<times> bool) list option \<Rightarrow> int \<Rightarrow> player" where
  "Player_init nm cls lvl xp mhp h atk invt loc tsk streak =
     \<lparr>name = nm, player_class = lower cls, level = lvl, exp_pts = xp, max_hp = mhp, hp = h,
      base_attack = atk,
      inventory = (case invt of None \<Rightarrow> [] | Some xs \<Rightarrow> xs),
      location = loc,
      tasks = (case tsk of None \<Rightarrow> default_tasks
               | Some ts \<Rightarrow> if ts = [] then default_tasks else ts),
      pomodoro_streak = streak\<rparr>"

text \<open>
  Reading a field of the loaded value: \<open>data[key]\<close> raises \<open>KeyError\<close> on a missing key
  and \<open>TypeError\<close> when \<open>data\<close> is not a dictionary.
\<close>

definition get_item :: "json \<Rightarrow> string \<Rightarrow> error + json" where
  "get_item data k =
     (case data of
        JObj kvs \<Rightarrow> (case map_of kvs k of None \<Rightarrow> Inl KeyError | Some v \<Rightarrow> Inr v)
      | _ \<Rightarrow> Inl TypeError)"

text \<open>
  The fields of \<open>player\<close> are typed. The source stores whatever \<open>json.load\<close> returned; here
  a loaded value of another type than its field is the error \<open>TypeError\<close>, so that
  \<open>load_game\<close> returns only players that the record can hold. Two cases follow the
  source exactly: a class that is no string has no method \<open>lower\<close>, which is
  \<open>AttributeError\<close>; and \<open>Player.__init__\<close> tests the truth value of \<open>tasks\<close>, so every
  false value (\<open>null\<close>, \<open>false\<close>, 0, the empty string, list or dictionary) stands for the
  default dictionary.
\<close>

fun as_str :: "json \<Rightarrow> error + string" where
  "as_str (JStr x) = Inr x"
| "as_str _ = Inl TypeError"

fun as_class :: "json \<Rightarrow> error + string" where
  "as_class (JStr x) = Inr x"
| "as_class _ = Inl AttributeError"

fun as_int :: "json \<Rightarrow> error + int" where
  "as_int (JInt i) = Inr i"
| "as_int _ = Inl TypeError"

fun as_str_list :: "json list \<Rightarrow> error + string list" where
  "as_str_list [] = Inr []"
| "as_str_list (j # js) =
     (case as_str j of
        Inl err \<Rightarrow> Inl err
      | Inr x \<Rightarrow> (case as_str_list js of Inl err \<Rightarrow> Inl err | Inr xs \<Rightarrow> Inr (x # xs)))"

fun as_inventory :: "json \<Rightarrow> error + string list option" where
  "as_inventory JNull = Inr None"
| "as_inventory (JList js) =
     (case as_str_list js of Inl err \<Rightarrow> Inl err | Inr xs \<Rightarrow> Inr (Some xs))"
| "as_inventory _ = Inl TypeError"

fun as_bool_dict :: "(string \<times> json) list \<Rightarrow> error + (string \<times> bool) list" where
  "as_bool_dict [] = Inr []"
| "as_bool_dict ((k, JBool b) # kvs) =
     (case as_bool_dict kvs of Inl err \<Rightarrow> Inl err | Inr ts \<Rightarrow> Inr ((k, b) # ts))"
| "as_bool_dict (_ # kvs) = Inl TypeError"

fun as_tasks :: "json \<Rightarrow> error + (string \<times> bool) list option" where
  "as_tasks JNull = Inr None"
| "as_tasks (JBool b) = (if b then Inl TypeError else Inr None)"
| "as_tasks (JInt i) = (if i = 0 then Inr None else Inl TypeError)"
| "as_tasks (JStr x) = (if x = [] then Inr None else Inl TypeError)"
| "as_tasks (JList js) = (if js = [] then Inr None else Inl TypeError)"
| "as_tasks (JObj kvs) =
     (case as_bool_dict kvs of Inl err \<Rightarrow> Inl err | Inr ts \<Rightarrow> Inr (Some ts))"

text \<open>Sequencing of steps that can raise.\<close>

definition bind_err :: "error + 'a \<Rightarrow> ('a \<Rightarrow> error + 'b) \<Rightarrow> error + 'b" where
  "bind_err m f = (case m of Inl err \<Rightarrow> Inl err | Inr x \<Rightarrow> f x)"

text \<open>
  \<open>load_game\<close> on the content of the save file: \<open>None\<close> when there is no file. Else
  the eleven fields are read in the order of the call, each \<open>data[key]\<close> before
  \<open>Player.__init__\<close> starts, and then the player is built.
\<close>

definition load_game :: "json option \<Rightarrow> error + player option" where
  "load_game file =
     (case file of
        None \<Rightarrow> Inr None
      | Some data \<Rightarrow>
          bind_err (get_item data ''name'') (\<lambda>j_name.
          bind_err (get_item data ''player_class'') (\<lambda>j_class.
          bind_err (get_item data ''level'') (\<lambda>j_level.
          bind_err (get_item data ''exp'') (\<lambda>j_exp.
          bind_err (get_item data ''max_hp'') (\<lambda>j_max_hp.
          bind_err (get_item data ''hp'') (\<lambda>j_hp.
          bind_err (get_item data ''base_attack'') (\<lambda>j_base_attack.
          bind_err (get_item data ''inventory'') (\<lambda>j_inventory.
          bind_err (get_item data ''location'') (\<lambda>j_location.
          bind_err (get_item data ''tasks'') (\<lambda>j_tasks.
          bind_err (get_item data ''pomodoro_streak'') (\<lambda>j_streak.
          bind_err (as_str j_name) (\<lambda>nm.
          bind_err (as_class j_class) (\<lambda>cls.
          bind_err (as_int j_level) (\<lambda>lvl.
          bind_err (as_int j_exp) (\<lambda>xp.
          bind_err (as_int j_max_hp) (\<lambda>mhp.
          bind_err (as_int j_hp) (\<lambda>h.
          bind_err (as_int j_base_attack) (\<lambda>atk.
          bind_err (as_inventory j_inventory) (\<lambda>invt.
          bind_err (as_str j_location) (\<lambda>loc.
          bind_err (as_tasks j_tasks) (\<lambda>tsk.
          bind_err (as_int j_streak) (\<lambda>streak.
            Inr (Some (Player_init nm cls lvl xp mhp h atk invt loc tsk streak)))))))))))))))))))))))))"

text \<open>
  A valid player, as the persistence schema has it: the class is a key of \<open>CLASS_STATS\<close>,
  level, experience and hit points are in range, and \<open>tasks\<close> has at least the three
  fixed keys.
\<close>

definition valid_player :: "player \<Rightarrow> bool" where
  "valid_player p =
     (player_class p \<in> set (map fst CLASS_STATS) \<and> 1 \<le> level p \<and> 0 \<le> exp_pts p \<and>
      0 \<le> hp p \<and> hp p \<le> max_hp p \<and>
      set (map fst default_tasks) \<subseteq> set (map fst (tasks p)))"

text \<open>
  The player that \<open>new_game\<close> builds when both dialogs are left empty: the name
  \<open>idleHero\<close>, the class \<open>warrior\<close> with its base statistics, every other argument at
  its default.
\<close>

definition idle_hero :: player where
  "idle_hero =
     Player_init ''idleHero'' ''warrior'' 1 0 120 120 8 None ''temple_of_stillness'' None 0"

section \<open>A part of the map\<close>

text \<open>\<open>Room.__init__\<close>: no enemy unless one is given, and the respawn deadline 0.\<close>

definition Room_init ::
  "string \<Rightarrow> string \<Rightarrow> (string \<times> string option) list \<Rightarrow> string list \<Rightarrow> enemy option \<Rightarrow> room" where
  "Room_init nm descr exs its en =
     \<lparr>r_name = nm, description = descr, exits = exs, items = its, enemy = en,
      respawn_timer = 0\<rparr>"

text \<open>The first two rooms of the dictionary \<open>rooms\<close>.\<close>

definition temple_of_stillness :: room where
  "temple_of_stillness =
     Room_init (''Temple of Stillness in Gad'' @ [CHR 0x27] @ ''s Landing'')
       (''This chamber is filled with hypnotic, shifting colors of light.'' @ [CHR 0x0A] @
        ''Walls, floor, and ceiling are crafted from timbers and wood.'' @ [CHR 0x0A] @
        ''A simple, unadorned jet-black altar sits at the far end.'')
       [(''northwest'', Some ''downtown_gads_landing''), (''east'', Some ''outer_courtyard'')]
       [''pair_of_red_fur_claws'', ''pair_of_red_fur_claws'', ''pair_of_red_fur_claws'']
       None"

definition outer_courtyard :: room where
  "outer_courtyard =
     Room_init ''Outer Courtyard''
       (''An open courtyard surrounded by tall stone walls. The ground is dusty'' @ [CHR 0x0A] @
        ''and scattered with training dummies. A path leads back west or east.'' @ [CHR 0x0A] @
        ''A massive gate to the north leads toward a looming castle.'')
       [(''west'', Some ''temple_of_stillness''), (''east'', Some ''training_ground''),
        (''north'', Some ''castle_entrance'')]
       [''training_dummy'']
       None"

definition rooms_excerpt :: "string \<rightharpoonup> room" where
  "rooms_excerpt =
     [''temple_of_stillness'' \<mapsto> temple_of_stillness, ''outer_courtyard'' \<mapsto> outer_courtyard]"

text \<open>
  The state of the window once a game with player \<open>p\<close> has started: the cursor of the
  automatic movement at 0, the timer stopped, the four widgets enabled, the output area
  empty.
\<close>

definition started_game :: "player \<Rightarrow> (string \<rightharpoonup> room) \<Rightarrow> game" where
  "started_game p rs =
     \<lparr>player = p, rooms = rs, auto_move_index = 0, pomodoro_running = False,
      pomodoro_in_break = False, btn_save_enabled = True, command_entry_enabled = True,
      btn_pomo_start_enabled = True, btn_pomo_stop_enabled = True, output_area = []\<rparr>"

text \<open>An environment in which every raw draw is \<open>k\<close> and every clock reading is \<open>t\<close>.\<close>

definition steady_env :: "nat \<Rightarrow> real \<Rightarrow> env" where
  "steady_env k t = \<lparr>draws = (\<lambda>n. k), readings = (\<lambda>n. t)\<rparr>"

text \<open>The temple with the first enemy of the pool in it, at \<open>h\<close> hit points.\<close>

definition haunted_temple :: "int \<Rightarrow> (string \<rightharpoonup> room)" where
  "haunted_temple h =
     rooms_excerpt(''temple_of_stillness'' \<mapsto>
       temple_of_stillness\<lparr>enemy := Some ((new_enemy (ENEMY_POOL ! 0))\<lparr>e_hp := h\<rparr>)\<rparr>)"

text \<open>The temple after its enemy was killed, with the respawn deadline \<open>d\<close>.\<close>

definition cleared_temple :: "real \<Rightarrow> (string \<rightharpoonup> room)" where
  "cleared_temple d =
     rooms_excerpt(''temple_of_stillness'' \<mapsto>
       temple_of_stillness\<lparr>enemy := None, respawn_timer := d\<rparr>)"

section \<open>Commands and ticks\<close>

text \<open>
  \<open>command_help\<close> writes fourteen lines, a header and one line for each of the thirteen
  commands; \<open>show_tasks\<close> reads the three fixed flags.
\<close>

definition command_help :: "game \<Rightarrow> game" where
  "command_help s = write_lines (map MsgHelp [0..<14]) s"

definition show_tasks :: "game \<Rightarrow> error + game" where
  "show_tasks s =
     (case map_of (tasks (player s)) ''complete_daily_job'' of
        None \<Rightarrow> Inl KeyError
      | Some a \<Rightarrow>
          (case map_of (tasks (player s)) ''drink_from_stream'' of
             None \<Rightarrow> Inl KeyError
           | Some b \<Rightarrow>
               (case map_of (tasks (player s)) ''stun_opponent'' of
                  None \<Rightarrow> Inl KeyError
                | Some c \<Rightarrow> Inr (write_line (MsgTasks a b c) s))))"

text \<open>
  The commands of \<open>execute_command\<close>, after the text of the entry has been parsed, in the
  order in which the source tests them. \<open>quit\<close>, which ends the program, has no
  constructor.
\<close>

datatype command =
    Help
  | Look
  | Move string
  | Attack
  | Heal
  | Stats
  | Pickup string
  | Drop string
  | Use string
  | Skill
  | TaskList
  | Unknown

fun execute_command :: "command \<Rightarrow> game \<Rightarrow> env \<Rightarrow> error + (game \<times> env)" where
  "execute_command Help s w = Inr (command_help s, w)"
| "execute_command Look s w = look_around s w"
| "execute_command (Move direction) s w = move_player s direction w"
| "execute_command Attack s w = attack_enemy s w"
| "execute_command Heal s w = heal_player s w"
| "execute_command Stats s w = Inr (write_line (MsgStats (player s)) s, w)"
| "execute_command (Pickup item_name) s w =
     (case pickup_item s item_name of Inl err \<Rightarrow> Inl err | Inr s1 \<Rightarrow> Inr (s1, w))"
| "execute_command (Drop item_name) s w =
     (case drop_item s item_name of Inl err \<Rightarrow> Inl err | Inr s1 \<Rightarrow> Inr (s1, w))"
| "execute_command (Use item_name) s w = use_item s item_name w"
| "execute_command Skill s w = use_class_skill s w"
| "execute_command TaskList s w =
     (case show_tasks s of Inl err \<Rightarrow> Inl err | Inr s1 \<Rightarrow> Inr (s1, w))"
| "execute_command Unknown s w = Inr (write_line MsgUnknown s, w)"

text \<open>
  What happens to the game from outside: a command is entered, or the timer, during a
  focus interval, calls \<open>auto_move_and_attack\<close>. A run handles a list of such events in
  order and ends at the first exception.
\<close>

datatype event = Command command | Tick

fun handle_event :: "event \<Rightarrow> game \<Rightarrow> env \<Rightarrow> error + (game \<times> env)" where
  "handle_event (Command c) s w = execute_command c s w"
| "handle_event Tick s w = auto_move_and_attack s w"

fun run :: "event list \<Rightarrow> game \<Rightarrow> env \<Rightarrow> error + (game \<times> env)" where
  "run [] s w = Inr (s, w)"
| "run (ev # evs) s w =
     (case handle_event ev s w of Inl err \<Rightarrow> Inl err | Inr (s1, w1) \<Rightarrow> run evs s1 w1)"

text \<open>
  The lines by which the output tells what was done: the header that \<open>look_around\<close>
  writes on arrival in a room, the line of a basic attack, the line of a self-heal.
\<close>

fun is_move_line :: "msg \<Rightarrow> bool" where
  "is_move_line (MsgLocation nm) = True"
| "is_move_line m = False"

fun is_attack_line :: "msg \<Rightarrow> bool" where
  "is_attack_line (MsgLash nm d h) = True"
| "is_attack_line m = False"

fun is_heal_line :: "msg \<Rightarrow> bool" where
  "is_heal_line (MsgPatch a h) = True"
| "is_heal_line m = False"

text \<open>
  The lines of at most one attack-or-heal action: at most one attack line and at most one
  heal line, and both only when the heal is the recovery that ends the exchange, right
  after the line of the fall.
\<close>

definition one_action :: "msg list \<Rightarrow> bool" where
  "one_action new =
     (length (filter is_attack_line new) \<le> 1 \<and> length (filter is_heal_line new) \<le> 1 \<and>
      (length (filter is_attack_line new) + length (filter is_heal_line new) \<le> 1 \<or>
       (\<exists>pre h v. new = pre @ [MsgSuccumb, MsgPatch h v])))"

text \<open>The clock of \<open>w'\<close> is that of \<open>w\<close> after some readings were taken.\<close>

definition clock_later :: "env \<Rightarrow> env \<Rightarrow> bool" where
  "clock_later w w' = (\<exists>j. \<forall>n. readings w' n = readings w (n + j))"

text \<open>
  From \<open>s\<close> to \<open>s'\<close> every room is kept, and a room without a live enemy still has none
  and has its respawn deadline unchanged.
\<close>

definition dead_preserved :: "game \<Rightarrow> game \<Rightarrow> bool" where
  "dead_preserved s s' =
     (\<forall>k r. rooms s k = Some r \<longrightarrow>
        (\<exists>r'. rooms s' k = Some r' \<and>
           (\<not> has_live_enemy r \<longrightarrow>
              \<not> has_live_enemy r' \<and> respawn_timer r' = respawn_timer r)))"

text \<open>
  The same, except that the room in which the player ends may have received an enemy, when
  the first clock reading of \<open>w\<close> is at or past the deadline of that room.
\<close>

definition dead_or_respawned :: "env \<Rightarrow> game \<Rightarrow> game \<Rightarrow> bool" where
  "dead_or_respawned w s s' =
     (\<forall>k r. rooms s k = Some r \<longrightarrow>
        (\<exists>r'. rooms s' k = Some r' \<and>
           (\<not> has_live_enemy r \<longrightarrow>
              (\<not> has_live_enemy r' \<and> respawn_timer r' = respawn_timer r) \<or>
              (respawn_timer r \<le> readings w 0 \<and> location (player s') = k))))"

section \<open>Experience and levels\<close>

lemma level_loop_unfold:
  "r \<le> exp_pts p \<Longrightarrow>
     level_loop p r =
       level_loop ((level_up p)\<lparr>exp_pts := exp_pts (level_up p) - r\<rparr>) (level (level_up p) * 100)"
  by simp

lemma level_loop_stop: "\<not> r \<le> exp_pts p \<Longrightarrow> level_loop p r = p"
  by simp

declare level_loop.simps [simp del]

lemma level_loop_bound:
  "r = level p * 100 \<Longrightarrow> 0 \<le> exp_pts p \<Longrightarrow>
     0 \<le> exp_pts (level_loop p r) \<and> exp_pts (level_loop p r) < level (level_loop p r) * 100"
proof (induction p r rule: level_loop.induct)
  case (1 p r)
  show ?case
  proof (cases "r \<le> exp_pts p")
    case True
    have "0 \<le> exp_pts ((level_up p)\<lparr>exp_pts := exp_pts (level_up p) - r\<rparr>)"
      using True by (simp add: level_up_def)
    moreover have "level (level_up p) * 100 =
        level ((level_up p)\<lparr>exp_pts := exp_pts (level_up p) - r\<rparr>) * 100"
      by simp
    ultimately show ?thesis
      using "1.IH" [OF True] by (simp add: level_loop_unfold [OF True])
  next
    case False
    with "1.prems" show ?thesis by (simp add: level_loop_stop)
  qed
qed

lemma level_loop_level_mono: "level p \<le> level (level_loop p r)"
proof (induction p r rule: level_loop.induct)
  case (1 p r)
  show ?case
  proof (cases "r \<le> exp_pts p")
    case True
    with "1.IH" [OF True] show ?thesis
      by (simp add: level_loop_unfold [OF True] level_up_def)
  next
    case False
    then show ?thesis by (simp add: level_loop_stop)
  qed
qed

text \<open>
  A later award of \<open>b\<close> to the player that the loop returns is absorbed: the loop run
  on the larger experience gives the same player.
\<close>

lemma level_loop_absorb:
  "r = level p * 100 \<Longrightarrow> 0 \<le> b \<Longrightarrow>
     level_loop ((level_loop p r)\<lparr>exp_pts := exp_pts (level_loop p r) + b\<rparr>)
        (level (level_loop p r) * 100) =
     level_loop (p\<lparr>exp_pts := exp_pts p + b\<rparr>) r"
proof (induction p r rule: level_loop.induct)
  case (1 p r)
  show ?case
  proof (cases "r \<le> exp_pts p")
    case True
    let ?p' = "(level_up p)\<lparr>exp_pts := exp_pts (level_up p) - r\<rparr>"
    have r': "level (level_up p) * 100 = level ?p' * 100" by simp
    have big: "r \<le> exp_pts (p\<lparr>exp_pts := exp_pts p + b\<rparr>)"
      using True "1.prems" by simp
    have same: "(level_up (p\<lparr>exp_pts := exp_pts p + b\<rparr>))
                  \<lparr>exp_pts := exp_pts (level_up (p\<lparr>exp_pts := exp_pts p + b\<rparr>)) - r\<rparr> =
                ?p'\<lparr>exp_pts := exp_pts ?p' + b\<rparr>"
      by (simp add: level_up_def)
    have lv: "level (level_up (p\<lparr>exp_pts := exp_pts p + b\<rparr>)) = level (level_up p)"
      by (simp add: level_up_def)
    show ?thesis
      using "1.IH" [OF True r' "1.prems"(2)]
      by (simp add: level_loop_unfold [OF True] level_loop_unfold [OF big] same lv)
  next
    case False
    with "1.prems" show ?thesis by (simp add: level_loop_stop)
  qed
qed

lemma add_experience_twice:
  "0 \<le> b \<Longrightarrow> add_experience (add_experience p a) b = add_experience p (a + b)"
  using level_loop_absorb [of "level p * 100" "p\<lparr>exp_pts := exp_pts p + a\<rparr>" b]
  by (simp add: add_experience_def add.assoc)

lemma foldl_add_experience:
  "\<forall>x\<in>set xs. 0 \<le> x \<Longrightarrow>
     foldl add_experience (add_experience p a) xs = add_experience p (a + sum_list xs)"
  by (induction xs arbitrary: a) (simp_all add: add_experience_twice add.assoc)

lemma add_experience_zero:
  "exp_pts p < level p * 100 \<Longrightarrow> add_experience p 0 = p"
  by (simp add: add_experience_def level_loop_stop)

lemma add_experience_step:
  "level p * 100 \<le> exp_pts p + amount \<Longrightarrow>
     add_experience p amount =
       add_experience ((level_up p)\<lparr>exp_pts := exp_pts p - level p * 100\<rparr>) amount"
proof -
  assume big: "level p * 100 \<le> exp_pts p + amount"
  have "level_loop (p\<lparr>exp_pts := exp_pts p + amount\<rparr>) (level p * 100) =
        level_loop ((level_up p)\<lparr>exp_pts := exp_pts p + amount - level p * 100\<rparr>)
          (level (level_up p) * 100)"
    using level_loop_unfold [of "level p * 100" "p\<lparr>exp_pts := exp_pts p + amount\<rparr>"] big
    by (simp add: level_up_def)
  then show ?thesis
    by (simp add: add_experience_def level_up_def algebra_simps)
qed

text \<open>
  Claim C2. After \<open>add_experience\<close> with an amount that is not negative, on a player
  whose experience is not negative, the experience lies from 0 up to, not including,
  100 times the new level. An award that reaches the threshold of the current level
  subtracts that threshold, levels up once and goes on against the threshold of the new
  level; an award that also covers the next threshold raises the level by two or more in
  the one call.
\<close>

theorem add_experience_below_threshold:
  assumes "0 \<le> exp_pts p" and "0 \<le> amount"
  shows "0 \<le> exp_pts (add_experience p amount) \<and>
         exp_pts (add_experience p amount) < level (add_experience p amount) * 100 \<and>
         (level p * 100 \<le> exp_pts p + amount \<longrightarrow>
            add_experience p amount =
              add_experience ((level_up p)\<lparr>exp_pts := exp_pts p - level p * 100\<rparr>) amount) \<and>
         (level p * 100 + (level p + 1) * 100 \<le> exp_pts p + amount \<longrightarrow>
            level p + 2 \<le> level (add_experience p amount))"
proof -
  have bound: "0 \<le> exp_pts (add_experience p amount) \<and>
      exp_pts (add_experience p amount) < level (add_experience p amount) * 100"
    using level_loop_bound [of "level p * 100" "p\<lparr>exp_pts := exp_pts p + amount\<rparr>"] assms
    by (simp add: add_experience_def)
  have two: "level p + 2 \<le> level (add_experience p amount)"
    if cover: "level p * 100 + (level p + 1) * 100 \<le> exp_pts p + amount"
  proof -
    let ?q = "(level_up p)\<lparr>exp_pts := exp_pts p - level p * 100\<rparr>"
    let ?q2 = "(level_up ?q)\<lparr>exp_pts := exp_pts ?q - level ?q * 100\<rparr>"
    have first: "level p * 100 \<le> exp_pts p + amount"
      using cover assms by (cases "0 \<le> level p") auto
    have second: "level ?q * 100 \<le> exp_pts ?q + amount"
      using cover by (simp add: level_up_def)
    have "add_experience p amount = add_experience ?q2 amount"
      using add_experience_step [OF first] add_experience_step [OF second] by simp
    moreover have "level ?q2 \<le> level (add_experience ?q2 amount)"
      unfolding add_experience_def
      using level_loop_level_mono [of "?q2\<lparr>exp_pts := exp_pts ?q2 + amount\<rparr>" "level ?q2 * 100"]
      by simp
    moreover have "level ?q2 = level p + 2"
      by (simp add: level_up_def)
    ultimately show ?thesis by simp
  qed
  show ?thesis
    using bound two add_experience_step [of p amount] by blast
qed

theorem add_experience_below_threshold_witness:
  "0 \<le> exp_pts idle_hero \<and> (0::int) \<le> 300 \<and>
   level idle_hero * 100 + (level idle_hero + 1) * 100 \<le> exp_pts idle_hero + 300 \<and>
   0 \<le> exp_pts (add_experience idle_hero 300) \<and>
   exp_pts (add_experience idle_hero 300) < level (add_experience idle_hero 300) * 100 \<and>
   level idle_hero + 2 \<le> level (add_experience idle_hero 300)"
proof -
  have h1: "0 \<le> exp_pts idle_hero" by (simp add: idle_hero_def Player_init_def)
  have h2: "(0::int) \<le> 300" by simp
  have h3: "level idle_hero * 100 + (level idle_hero + 1) * 100 \<le> exp_pts idle_hero + 300"
    by (simp add: idle_hero_def Player_init_def)
  show ?thesis
    using add_experience_below_threshold [OF h1 h2] h1 h2 h3 by blast
qed

text \<open>
  Claim C3. For awards that are not negative, one call of \<open>add_experience\<close> per award,
  in order, gives the same player (level, experience, both hit-point fields, base attack
  and every other field) as a single call with the sum, when there is at least one award
  or the experience of the player is already below the threshold of the level.
\<close>

theorem add_experience_sequence:
  assumes "\<forall>a\<in>set amounts. 0 \<le> a"
    and "amounts \<noteq> [] \<or> exp_pts p < level p * 100"
  shows "foldl add_experience p amounts = add_experience p (sum_list amounts)"
proof (cases amounts)
  case Nil
  with assms(2) show ?thesis by (simp add: add_experience_zero)
next
  case (Cons a rest)
  with assms(1) have "\<forall>x\<in>set rest. 0 \<le> x" by simp
  from foldl_add_experience [OF this, of p a] Cons show ?thesis by simp
qed

theorem add_experience_sequence_witness:
  "(0::int) \<le> 50 \<and> (0::int) \<le> 200 \<and> [50, 50, 200::int] \<noteq> [] \<and>
   foldl add_experience idle_hero [50, 50, 200] = add_experience idle_hero (sum_list [50, 50, 200])"
proof -
  have h1: "\<forall>a\<in>set [50, 50, 200::int]. 0 \<le> a" by simp
  have h2: "[50, 50, 200::int] \<noteq> [] \<or> exp_pts idle_hero < level idle_hero * 100" by simp
  show ?thesis
    using add_experience_sequence [OF h1 h2] by simp
qed

text \<open>
  With no award at all and a player whose experience is at or above the threshold of the
  level, the single call with the sum 0 levels the player up, while the empty sequence of
  calls leaves the player as it is.
\<close>

theorem add_experience_sequence_counterexample:
  "level (foldl add_experience (idle_hero\<lparr>exp_pts := 150\<rparr>) []) \<noteq>
   level (add_experience (idle_hero\<lparr>exp_pts := 150\<rparr>) (sum_list []))"
  by (simp add: add_experience_def level_loop.simps level_up_def idle_hero_def Player_init_def)

section \<open>Persistence\<close>

lemma as_str_list_map: "as_str_list (map JStr xs) = Inr xs"
  by (induction xs) simp_all

lemma as_bool_dict_map: "as_bool_dict (map (\<lambda>(k, v). (k, JBool v)) ts) = Inr ts"
  by (induction ts) auto

lemma lower_class_key: "cls \<in> set (map fst CLASS_STATS) \<Longrightarrow> lower cls = cls"
  by (auto simp: CLASS_STATS_def lower_def lower_char_def)

lemma valid_tasks_nonempty: "valid_player p \<Longrightarrow> tasks p \<noteq> []"
  by (auto simp: valid_player_def default_tasks_def)

text \<open>
  Claim C1. For every valid player, \<open>load_game\<close> on the file that \<open>save_game\<close> wrote
  returns that player: every field is equal, the task dictionary with every flag and the
  inventory with its duplicates and its order included.
\<close>

theorem load_save_roundtrip:
  assumes "valid_player p"
  shows "load_game (save_game p) = Inr (Some p)"
proof -
  have cls: "lower (player_class p) = player_class p"
    using assms lower_class_key by (simp add: valid_player_def)
  have ts: "tasks p \<noteq> []"
    using assms by (rule valid_tasks_nonempty)
  show ?thesis
    by (simp add: load_game_def save_game_def get_item_def bind_err_def
        as_str_list_map as_bool_dict_map Player_init_def cls ts)
qed

text \<open>The idle hero carrying two swords is saved and loaded back with both.\<close>

theorem load_save_roundtrip_witness:
  "valid_player (idle_hero\<lparr>inventory := [''sword'', ''sword'']\<rparr>) \<and>
   load_game (save_game (idle_hero\<lparr>inventory := [''sword'', ''sword'']\<rparr>)) =
     Inr (Some (idle_hero\<lparr>inventory := [''sword'', ''sword'']\<rparr>))"
proof -
  have v: "valid_player (idle_hero\<lparr>inventory := [''sword'', ''sword'']\<rparr>)"
    by (simp add: valid_player_def idle_hero_def Player_init_def CLASS_STATS_def
        default_tasks_def lower_def lower_char_def)
  from load_save_roundtrip [OF v] v show ?thesis by simp
qed

section \<open>Exchanges: damage, the killing blow, the fallen player\<close>

lemma randint_range:
  "randint a b w = Inr (v, w') \<Longrightarrow> a \<le> v \<and> v \<le> b"
proof -
  assume r: "randint a b w = Inr (v, w')"
  then have ab: "a \<le> b" by (auto simp: randint_def split: if_splits)
  have "fst (next_draw w) mod nat (b - a + 1) < nat (b - a + 1)"
    using ab by simp
  then have "int (fst (next_draw w) mod nat (b - a + 1)) < b - a + 1"
    using ab by linarith
  with r ab show ?thesis
    by (auto simp: randint_def split: if_splits)
qed

lemma randint_total:
  "a \<le> b \<Longrightarrow> \<exists>v w'. randint a b w = Inr (v, w')"
  by (simp add: randint_def)

lemma level_loop_tasks: "tasks (level_loop p r) = tasks p"
proof (induction p r rule: level_loop.induct)
  case (1 p r)
  show ?case
  proof (cases "r \<le> exp_pts p")
    case True
    with "1.IH" [OF True] show ?thesis
      by (simp add: level_loop_unfold [OF True] level_up_def)
  next
    case False
    then show ?thesis by (simp add: level_loop_stop)
  qed
qed

lemma add_experience_tasks [simp]: "tasks (add_experience p a) = tasks p"
  by (simp add: add_experience_def level_loop_tasks)

lemma attack_enemy_kill:
  assumes room: "rooms s (location (player s)) = Some room"
    and en: "enemy room = Some e" and live: "is_alive e"
    and roll: "randint (base_attack (player s) - 2) (base_attack (player s) + 2) w = Inr (roll, w1)"
    and d: "(if roll < 0 then 0 else roll) = d"
    and kill: "e_hp e - d \<le> 0"
    and key: "map_of (tasks (player s)) ''stun_opponent'' = Some done"
  shows "attack_enemy s w =
     Inr (s\<lparr>player := (add_experience (player s) (exp_reward e))
                 \<lparr>tasks := AList.update ''stun_opponent'' True (tasks (player s))\<rparr>,
            rooms := (rooms s)(location (player s) \<mapsto>
                 room\<lparr>enemy := None, respawn_timer := fst (time_time w1) + RESPAWN_TIME\<rparr>),
            output_area := output_area s @
               [MsgLash (e_name e) d (e_hp e - d),
                MsgDefeated (e_name e), MsgGainExp (exp_reward e)] @
               (if done then [] else [MsgTaskStun])\<rparr>,
          snd (time_time w1))"
proof -
  have triv: "done \<Longrightarrow> AList.update ''stun_opponent'' True (tasks (player s)) = tasks (player s)"
    using key by (simp add: update_triv)
  show ?thesis
    using room en live roll kill key triv
    by (cases s) (simp add: attack_enemy_def calculate_attack_def Let_def write_line_def
        handle_mob_death_def d)
qed


lemma heal_player_full:
  "max_hp (player s) \<le> hp (player s) \<Longrightarrow> heal_player s w = Inr (write_line MsgFullHealth s, w)"
  by (simp add: heal_player_def)

lemma heal_player_heals:
  assumes "hp (player s) < max_hp (player s)" and "randint 5 15 w = Inr (h, w1)"
  shows "heal_player s w =
     Inr (s\<lparr>player := (player s)\<lparr>hp := min (hp (player s) + h) (max_hp (player s))\<rparr>,
            output_area := output_area s @
              [MsgPatch h (min (hp (player s) + h) (max_hp (player s)))]\<rparr>, w1)"
  using assms by (cases s) (simp add: heal_player_def Let_def write_line_def)

lemma attack_enemy_survive:
  assumes room: "rooms s (location (player s)) = Some room"
    and en: "enemy room = Some e" and live: "is_alive e"
    and roll: "randint (base_attack (player s) - 2) (base_attack (player s) + 2) w = Inr (roll, w1)"
    and d: "(if roll < 0 then 0 else roll) = d"
    and survive: "0 < e_hp e - d"
  shows "attack_enemy s w =
     (case randint 1 (attack_power e) w1 of
        Inl err \<Rightarrow> Inl err
      | Inr (r, w2) \<Rightarrow>
          if hp (player s) - r \<le> 0
          then heal_player
                 (s\<lparr>player := (player s)\<lparr>hp := hp (player s) - r\<rparr>,
                    rooms := (rooms s)(location (player s) \<mapsto>
                       room\<lparr>enemy := Some (e\<lparr>e_hp := e_hp e - d\<rparr>)\<rparr>),
                    output_area := output_area s @
                      [MsgLash (e_name e) d (e_hp e - d),
                       MsgCounter (e_name e) r (hp (player s) - r), MsgSuccumb]\<rparr>) w2
          else Inr (s\<lparr>player := (player s)\<lparr>hp := hp (player s) - r\<rparr>,
                      rooms := (rooms s)(location (player s) \<mapsto>
                         room\<lparr>enemy := Some (e\<lparr>e_hp := e_hp e - d\<rparr>)\<rparr>),
                      output_area := output_area s @
                        [MsgLash (e_name e) d (e_hp e - d),
                         MsgCounter (e_name e) r (hp (player s) - r)]\<rparr>, w2))"
proof -
  have nk: "\<not> e_hp e - d \<le> 0" using survive by simp
  have dd: "d = (if roll < 0 then 0 else roll)" using d by simp
  show ?thesis
    using room en live roll nk unfolding dd
    by (cases s)
       (simp add: attack_enemy_def calculate_attack_def Let_def write_line_def
          split: sum.split prod.split)
qed


lemma use_class_skill_kill:
  assumes room: "rooms s (location (player s)) = Some room"
    and en: "enemy room = Some e" and live: "is_alive e"
    and cls: "map_of CLASS_STATS (player_class (player s)) = Some cs"
    and boost: "randint 10 15 w = Inr (b, w1)"
    and kill: "e_hp e - b \<le> 0"
    and key: "map_of (tasks (player s)) ''stun_opponent'' = Some done"
  shows "use_class_skill s w =
     Inr (s\<lparr>player := (add_experience (player s) (exp_reward e))
                 \<lparr>tasks := AList.update ''stun_opponent'' True (tasks (player s))\<rparr>,
            rooms := (rooms s)(location (player s) \<mapsto>
                 room\<lparr>enemy := None, respawn_timer := fst (time_time w1) + RESPAWN_TIME\<rparr>),
            output_area := output_area s @
               [MsgSkill (skill_name cs) b (e_hp e - b),
                MsgDefeated (e_name e), MsgGainExp (exp_reward e)] @
               (if done then [] else [MsgTaskStun])\<rparr>,
          snd (time_time w1))"
proof -
  have triv: "done \<Longrightarrow> AList.update ''stun_opponent'' True (tasks (player s)) = tasks (player s)"
    using key by (simp add: update_triv)
  show ?thesis
    using room en live cls boost kill key triv
    by (cases s) (simp add: use_class_skill_def get_class_skill_name_def Let_def write_line_def
        handle_mob_death_def)
qed

lemma use_class_skill_survive:
  assumes room: "rooms s (location (player s)) = Some room"
    and en: "enemy room = Some e" and live: "is_alive e"
    and cls: "map_of CLASS_STATS (player_class (player s)) = Some cs"
    and boost: "randint 10 15 w = Inr (b, w1)"
    and survive: "0 < e_hp e - b"
  shows "use_class_skill s w =
     (case randint 1 (attack_power e) w1 of
        Inl err \<Rightarrow> Inl err
      | Inr (r, w2) \<Rightarrow>
          if hp (player s) - r \<le> 0
          then Inr (s\<lparr>player := (player s)\<lparr>hp := hp (player s) - r\<rparr>,
                      rooms := (rooms s)(location (player s) \<mapsto>
                         room\<lparr>enemy := Some (e\<lparr>e_hp := e_hp e - b\<rparr>)\<rparr>),
                      output_area := output_area s @
                        [MsgSkill (skill_name cs) b (e_hp e - b),
                         MsgRetaliates (e_name e) r (hp (player s) - r), MsgGameOver],
                      btn_save_enabled := False, command_entry_enabled := False,
                      btn_pomo_start_enabled := False, btn_pomo_stop_enabled := False,
                      pomodoro_running := False, pomodoro_in_break := False\<rparr>, w2)
          else Inr (s\<lparr>player := (player s)\<lparr>hp := hp (player s) - r\<rparr>,
                      rooms := (rooms s)(location (player s) \<mapsto>
                         room\<lparr>enemy := Some (e\<lparr>e_hp := e_hp e - b\<rparr>)\<rparr>),
                      output_area := output_area s @
                        [MsgSkill (skill_name cs) b (e_hp e - b),
                         MsgRetaliates (e_name e) r (hp (player s) - r)]\<rparr>, w2))"
proof -
  have nk: "\<not> e_hp e - b \<le> 0" using survive by simp
  show ?thesis
    using room en live cls boost nk
    by (cases s)
       (simp add: use_class_skill_def get_class_skill_name_def Let_def write_line_def
          split: sum.split prod.split)
qed

lemma clamp_max: "(if roll < 0 then 0 else roll) = max 0 (roll::int)"
  by simp




lemma next_draw_steady [simp]: "next_draw (steady_env k t) = (k, steady_env k t)"
  by (simp add: next_draw_def steady_env_def)

lemma time_time_steady [simp]: "time_time (steady_env k t) = (t, steady_env k t)"
  by (simp add: time_time_def steady_env_def)

lemma randint_steady:
  "a \<le> b \<Longrightarrow>
     randint a b (steady_env k t) = Inr (a + int (k mod nat (b - a + 1)), steady_env k t)"
  by (simp add: randint_def)

lemma idle_hero_fields [simp]:
  "location idle_hero = ''temple_of_stillness''" "base_attack idle_hero = 8"
  "hp idle_hero = 120" "max_hp idle_hero = 120" "level idle_hero = 1" "exp_pts idle_hero = 0"
  "tasks idle_hero = default_tasks" "inventory idle_hero = []"
  "player_class idle_hero = ''warrior''"
  by (simp_all add: idle_hero_def Player_init_def lower_def lower_char_def)

lemma started_game_fields [simp]:
  "player (started_game p rs) = p" "rooms (started_game p rs) = rs"
  "output_area (started_game p rs) = []" "auto_move_index (started_game p rs) = 0"
  by (simp_all add: started_game_def)

lemma haunted_temple_room [simp]:
  "haunted_temple h ''temple_of_stillness'' =
     Some (temple_of_stillness\<lparr>enemy := Some ((new_enemy (ENEMY_POOL ! 0))\<lparr>e_hp := h\<rparr>)\<rparr>)"
  by (simp add: haunted_temple_def)

lemma anti_claws_fields [simp]:
  "e_name (new_enemy (ENEMY_POOL ! 0)) = ''Anti Claws''"
  "attack_power (new_enemy (ENEMY_POOL ! 0)) = 12"
  "exp_reward (new_enemy (ENEMY_POOL ! 0)) = 50"
  "alive (new_enemy (ENEMY_POOL ! 0))"
  "e_hp (new_enemy (ENEMY_POOL ! 0)) = 100"
  by (simp_all add: new_enemy_def ENEMY_POOL_def)

text \<open>
  Claim C6, as the code has it. When the enemy survives a basic attack and its
  counter-attack brings the hit points of the player to 0 or below, the player (with a
  positive maximum) gets one self-heal of \<open>heal_player\<close>: a draw \<open>h\<close> from 5 to 15 is
  added and the result capped at the maximum. No widget is disabled, the timer flags stay,
  and no game-over line is written.
\<close>

theorem fallen_player_heal:
  assumes room: "rooms s (location (player s)) = Some room"
    and en: "enemy room = Some e" and live: "is_alive e"
    and roll: "randint (base_attack (player s) - 2) (base_attack (player s) + 2) w = Inr (roll, w1)"
    and survive: "0 < e_hp e - max 0 roll"
    and ret: "randint 1 (attack_power e) w1 = Inr (r, w2)"
    and fallen: "hp (player s) - r \<le> 0"
    and mhp: "0 < max_hp (player s)"
  shows "\<exists>h w3 s'. randint 5 15 w2 = Inr (h, w3) \<and> 5 \<le> h \<and> h \<le> 15 \<and>
           attack_enemy s w = Inr (s', w3) \<and>
           hp (player s') = min (hp (player s) - r + h) (max_hp (player s)) \<and>
           max_hp (player s') = max_hp (player s) \<and>
           btn_save_enabled s' = btn_save_enabled s \<and>
           command_entry_enabled s' = command_entry_enabled s \<and>
           btn_pomo_start_enabled s' = btn_pomo_start_enabled s \<and>
           btn_pomo_stop_enabled s' = btn_pomo_stop_enabled s \<and>
           pomodoro_running s' = pomodoro_running s \<and>
           pomodoro_in_break s' = pomodoro_in_break s \<and>
           MsgGameOver \<notin> set (drop (length (output_area s)) (output_area s'))"
proof -
  obtain h w3 where heal: "randint 5 15 w2 = Inr (h, w3)"
    using randint_total [of 5 15 w2] by auto
  have range: "5 \<le> h \<and> h \<le> 15"
    using randint_range [OF heal] .
  let ?s3 = "s\<lparr>player := (player s)\<lparr>hp := hp (player s) - r\<rparr>,
                 rooms := (rooms s)(location (player s) \<mapsto>
                    room\<lparr>enemy := Some (e\<lparr>e_hp := e_hp e - max 0 roll\<rparr>)\<rparr>),
                 output_area := output_area s @
                   [MsgLash (e_name e) (max 0 roll) (e_hp e - max 0 roll),
                    MsgCounter (e_name e) r (hp (player s) - r), MsgSuccumb]\<rparr>"
  have low: "hp (player ?s3) < max_hp (player ?s3)"
    using fallen mhp by simp
  have "attack_enemy s w = heal_player ?s3 w2"
    using attack_enemy_survive [OF room en live roll clamp_max survive] ret fallen by simp
  then have "attack_enemy s w =
      Inr (?s3\<lparr>player := (player ?s3)\<lparr>hp := min (hp (player ?s3) + h) (max_hp (player ?s3))\<rparr>,
                output_area := output_area ?s3 @
                  [MsgPatch h (min (hp (player ?s3) + h) (max_hp (player ?s3)))]\<rparr>, w3)"
    using heal_player_heals [OF low heal] by simp
  with heal range show ?thesis by simp
qed

text \<open>
  The hit points after such an exchange need not be the maximum: the idle hero at 3 hit
  points loses 5 to the counter-attack, heals 9 and ends at 7 of 120.
\<close>

theorem fallen_player_heal_counterexample:
  "\<not> isl (attack_enemy (started_game (idle_hero\<lparr>hp := 3\<rparr>) (haunted_temple 100)) (steady_env 4 50)) \<and>
   hp (player (fst (projr (attack_enemy (started_game (idle_hero\<lparr>hp := 3\<rparr>) (haunted_temple 100))
      (steady_env 4 50))))) = 7 \<and>
   max_hp (player (fst (projr (attack_enemy (started_game (idle_hero\<lparr>hp := 3\<rparr>) (haunted_temple 100))
      (steady_env 4 50))))) = 120"
proof -
  let ?s = "started_game (idle_hero\<lparr>hp := 3\<rparr>) (haunted_temple 100)"
  let ?w = "steady_env 4 50"
  let ?e = "(new_enemy (ENEMY_POOL ! 0))\<lparr>e_hp := 100\<rparr>"
  let ?room = "temple_of_stillness\<lparr>enemy := Some ?e\<rparr>"
  have room: "rooms ?s (location (player ?s)) = Some ?room" by simp
  have en: "enemy ?room = Some ?e" by simp
  have live: "is_alive ?e" by (simp add: is_alive_def)
  have roll: "randint (base_attack (player ?s) - 2) (base_attack (player ?s) + 2) ?w = Inr (10, ?w)"
    by (simp add: randint_steady)
  have survive: "0 < e_hp ?e - 10" by simp
  have d: "(if (10::int) < 0 then 0 else 10) = 10" by simp
  show ?thesis
    using attack_enemy_survive [OF room en live roll d survive]
    by (simp add: randint_steady heal_player_def Let_def write_line_def)
qed


lemma attack_enemy_kill_no_key:
  assumes room: "rooms s (location (player s)) = Some room"
    and en: "enemy room = Some e" and live: "is_alive e"
    and roll: "randint (base_attack (player s) - 2) (base_attack (player s) + 2) w = Inr (roll, w1)"
    and d: "(if roll < 0 then 0 else roll) = d"
    and kill: "e_hp e - d \<le> 0"
    and key: "map_of (tasks (player s)) ''stun_opponent'' = None"
  shows "attack_enemy s w = Inl KeyError"
proof -
  have dd: "d = (if roll < 0 then 0 else roll)" using d by simp
  show ?thesis
    using room en live roll kill key unfolding dd
    by (cases s) (simp add: attack_enemy_def calculate_attack_def Let_def write_line_def)
qed

lemma use_class_skill_no_class:
  assumes room: "rooms s (location (player s)) = Some room"
    and en: "enemy room = Some e" and live: "is_alive e"
    and cls: "map_of CLASS_STATS (player_class (player s)) = None"
  shows "use_class_skill s w = Inl KeyError"
  using assms by (simp add: use_class_skill_def get_class_skill_name_def)

lemma use_class_skill_kill_no_key:
  assumes room: "rooms s (location (player s)) = Some room"
    and en: "enemy room = Some e" and live: "is_alive e"
    and cls: "map_of CLASS_STATS (player_class (player s)) = Some cs"
    and boost: "randint 10 15 w = Inr (b, w1)"
    and kill: "e_hp e - b \<le> 0"
    and key: "map_of (tasks (player s)) ''stun_opponent'' = None"
  shows "use_class_skill s w = Inl KeyError"
  using assms
  by (cases s) (simp add: use_class_skill_def get_class_skill_name_def Let_def write_line_def)

lemma heal_player_frame:
  assumes "heal_player s w = Inr (s', w')"
  shows "rooms s' = rooms s \<and> (\<exists>rest. output_area s' = output_area s @ rest) \<and>
         (max_hp (player s) \<le> hp (player s) \<longrightarrow> player s' = player s) \<and>
         (hp (player s) < max_hp (player s) \<longrightarrow>
            (\<exists>h. 5 \<le> h \<and> h \<le> 15 \<and>
               player s' = (player s)\<lparr>hp := min (hp (player s) + h) (max_hp (player s))\<rparr>))"
proof (cases "max_hp (player s) \<le> hp (player s)")
  case True
  with assms show ?thesis by (auto simp: heal_player_full write_line_def)
next
  case False
  obtain h w1 where heal: "randint 5 15 w = Inr (h, w1)"
    using randint_total [of 5 15 w] by auto
  from False have low: "hp (player s) < max_hp (player s)" by simp
  from heal_player_heals [OF low heal] assms
  have "rooms s' = rooms s" "\<exists>rest. output_area s' = output_area s @ rest"
    "player s' = (player s)\<lparr>hp := min (hp (player s) + h) (max_hp (player s))\<rparr>"
    by auto
  with randint_range [OF heal] low show ?thesis by auto
qed

lemma attack_enemy_damage:
  assumes room: "rooms s (location (player s)) = Some room"
    and en: "enemy room = Some e" and live: "is_alive e"
    and atk: "0 \<le> base_attack (player s)"
    and res: "attack_enemy s w = Inr (s', w')"
  shows "\<exists>d rest. max 0 (base_attack (player s) - 2) \<le> d \<and> d \<le> base_attack (player s) + 2 \<and>
           output_area s' = output_area s @ MsgLash (e_name e) d (e_hp e - d) # rest \<and>
           (e_hp e - d \<le> 0 \<longrightarrow> Option.bind (rooms s' (location (player s))) enemy = None) \<and>
           (0 < e_hp e - d \<longrightarrow>
              Option.bind (rooms s' (location (player s))) enemy =
                Some (e\<lparr>e_hp := e_hp e - d\<rparr>) \<and>
              (\<exists>r rest'. 1 \<le> r \<and> r \<le> attack_power e \<and>
                 rest = MsgCounter (e_name e) r (hp (player s) - r) # rest' \<and>
                 (0 < hp (player s) - r \<or> max_hp (player s) \<le> hp (player s) - r \<longrightarrow>
                    player s' = (player s)\<lparr>hp := hp (player s) - r\<rparr>) \<and>
                 (hp (player s) - r \<le> 0 \<and> hp (player s) - r < max_hp (player s) \<longrightarrow>
                    (\<exists>h. 5 \<le> h \<and> h \<le> 15 \<and>
                       player s' = (player s)
                         \<lparr>hp := min (hp (player s) - r + h) (max_hp (player s))\<rparr>))))"
proof -
  obtain roll w1 where roll:
    "randint (base_attack (player s) - 2) (base_attack (player s) + 2) w = Inr (roll, w1)"
    using randint_total [of "base_attack (player s) - 2" "base_attack (player s) + 2" w] by auto
  define d where "d = max 0 roll"
  have d: "(if roll < 0 then 0 else roll) = d" by (simp add: d_def)
  have range: "max 0 (base_attack (player s) - 2) \<le> d \<and> d \<le> base_attack (player s) + 2"
    using randint_range [OF roll] atk unfolding d_def by linarith
  show ?thesis
  proof (cases "e_hp e - d \<le> 0")
    case True
    show ?thesis
    proof (cases "map_of (tasks (player s)) ''stun_opponent''")
      case None
      from attack_enemy_kill_no_key [OF room en live roll d True None] res show ?thesis by simp
    next
      case (Some flag)
      from attack_enemy_kill [OF room en live roll d True Some] res
      have "output_area s' = output_area s @ MsgLash (e_name e) d (e_hp e - d) #
              ([MsgDefeated (e_name e), MsgGainExp (exp_reward e)] @
               (if flag then [] else [MsgTaskStun]))"
        and "Option.bind (rooms s' (location (player s))) enemy = None"
        by auto
      with range True show ?thesis by auto
    qed
  next
    case False
    then have survive: "0 < e_hp e - d" by simp
    note eq = attack_enemy_survive [OF room en live roll d survive]
    show ?thesis
    proof (cases "randint 1 (attack_power e) w1")
      case (Inl err)
      with eq res show ?thesis by simp
    next
      case (Inr rw)
      obtain r w2 where rw: "rw = (r, w2)" by (cases rw)
      have ret: "randint 1 (attack_power e) w1 = Inr (r, w2)" using Inr rw by simp
      have rr: "1 \<le> r \<and> r \<le> attack_power e" using randint_range [OF ret] .
      have "Option.bind (rooms s' (location (player s))) enemy =
              Some (e\<lparr>e_hp := e_hp e - d\<rparr>) \<and>
            (\<exists>rest'. output_area s' = output_area s @ MsgLash (e_name e) d (e_hp e - d) #
                 MsgCounter (e_name e) r (hp (player s) - r) # rest') \<and>
            (0 < hp (player s) - r \<or> max_hp (player s) \<le> hp (player s) - r \<longrightarrow>
               player s' = (player s)\<lparr>hp := hp (player s) - r\<rparr>) \<and>
            (hp (player s) - r \<le> 0 \<and> hp (player s) - r < max_hp (player s) \<longrightarrow>
               (\<exists>h. 5 \<le> h \<and> h \<le> 15 \<and>
                  player s' = (player s)
                    \<lparr>hp := min (hp (player s) - r + h) (max_hp (player s))\<rparr>))"
      proof (cases "hp (player s) - r \<le> 0")
        case True
        let ?s3 = "s\<lparr>player := (player s)\<lparr>hp := hp (player s) - r\<rparr>,
                 rooms := (rooms s)(location (player s) \<mapsto>
                    room\<lparr>enemy := Some (e\<lparr>e_hp := e_hp e - d\<rparr>)\<rparr>),
                 output_area := output_area s @
                   [MsgLash (e_name e) d (e_hp e - d),
                    MsgCounter (e_name e) r (hp (player s) - r), MsgSuccumb]\<rparr>"
        have "heal_player ?s3 w2 = Inr (s', w')"
          using eq ret True res by simp
        from heal_player_frame [OF this]
        obtain more where rs: "rooms s' = rooms ?s3"
          and out: "output_area s' = output_area ?s3 @ more"
          and full: "max_hp (player ?s3) \<le> hp (player ?s3) \<longrightarrow> player s' = player ?s3"
          and heals: "hp (player ?s3) < max_hp (player ?s3) \<longrightarrow>
            (\<exists>h. 5 \<le> h \<and> h \<le> 15 \<and>
               player s' = (player ?s3)\<lparr>hp := min (hp (player ?s3) + h) (max_hp (player ?s3))\<rparr>)"
          by blast
        from rs have "Option.bind (rooms s' (location (player s))) enemy =
              Some (e\<lparr>e_hp := e_hp e - d\<rparr>)"
          by simp
        moreover from out have "\<exists>rest'. output_area s' = output_area s @
            MsgLash (e_name e) d (e_hp e - d) #
            MsgCounter (e_name e) r (hp (player s) - r) # rest'"
          by simp
        moreover from full True
        have "0 < hp (player s) - r \<or> max_hp (player s) \<le> hp (player s) - r \<longrightarrow>
               player s' = (player s)\<lparr>hp := hp (player s) - r\<rparr>"
          by auto
        moreover from heals
        have "hp (player s) - r \<le> 0 \<and> hp (player s) - r < max_hp (player s) \<longrightarrow>
               (\<exists>h. 5 \<le> h \<and> h \<le> 15 \<and>
                  player s' = (player s)
                    \<lparr>hp := min (hp (player s) - r + h) (max_hp (player s))\<rparr>)"
          by simp
        ultimately show ?thesis by blast
      next
        case False
        with eq ret res
        have "s' = s\<lparr>player := (player s)\<lparr>hp := hp (player s) - r\<rparr>,
                      rooms := (rooms s)(location (player s) \<mapsto>
                         room\<lparr>enemy := Some (e\<lparr>e_hp := e_hp e - d\<rparr>)\<rparr>),
                      output_area := output_area s @
                        [MsgLash (e_name e) d (e_hp e - d),
                         MsgCounter (e_name e) r (hp (player s) - r)]\<rparr>"
          by simp
        with False show ?thesis by simp
      qed
      then obtain rest' where
        f1: "Option.bind (rooms s' (location (player s))) enemy =
              Some (e\<lparr>e_hp := e_hp e - d\<rparr>)"
        and f2: "output_area s' = output_area s @ MsgLash (e_name e) d (e_hp e - d) #
                 (MsgCounter (e_name e) r (hp (player s) - r) # rest')"
        and f3: "0 < hp (player s) - r \<or> max_hp (player s) \<le> hp (player s) - r \<longrightarrow>
               player s' = (player s)\<lparr>hp := hp (player s) - r\<rparr>"
        and f4: "hp (player s) - r \<le> 0 \<and> hp (player s) - r < max_hp (player s) \<longrightarrow>
               (\<exists>h. 5 \<le> h \<and> h \<le> 15 \<and>
                  player s' = (player s)
                    \<lparr>hp := min (hp (player s) - r + h) (max_hp (player s))\<rparr>)"
        by blast
      have inner: "\<exists>r0 rest0. 1 \<le> r0 \<and> r0 \<le> attack_power e \<and>
          MsgCounter (e_name e) r (hp (player s) - r) # rest' =
            MsgCounter (e_name e) r0 (hp (player s) - r0) # rest0 \<and>
          (0 < hp (player s) - r0 \<or> max_hp (player s) \<le> hp (player s) - r0 \<longrightarrow>
             player s' = (player s)\<lparr>hp := hp (player s) - r0\<rparr>) \<and>
          (hp (player s) - r0 \<le> 0 \<and> hp (player s) - r0 < max_hp (player s) \<longrightarrow>
             (\<exists>h. 5 \<le> h \<and> h \<le> 15 \<and>
                player s' = (player s)
                  \<lparr>hp := min (hp (player s) - r0 + h) (max_hp (player s))\<rparr>))"
        using rr f3 f4 by blast
      from range have r1: "max 0 (base_attack (player s) - 2) \<le> d"
        and r2: "d \<le> base_attack (player s) + 2" by simp_all
      show ?thesis
        using r1 r2 f1 f2 False inner by blast
    qed
  qed
qed

lemma use_class_skill_damage:
  assumes room: "rooms s (location (player s)) = Some room"
    and en: "enemy room = Some e" and live: "is_alive e"
    and res: "use_class_skill s w = Inr (s', w')"
  shows "\<exists>b skill rest. 10 \<le> b \<and> b \<le> 15 \<and>
           output_area s' = output_area s @ MsgSkill skill b (e_hp e - b) # rest \<and>
           (e_hp e - b \<le> 0 \<longrightarrow> Option.bind (rooms s' (location (player s))) enemy = None) \<and>
           (0 < e_hp e - b \<longrightarrow>
              Option.bind (rooms s' (location (player s))) enemy =
                Some (e\<lparr>e_hp := e_hp e - b\<rparr>) \<and>
              (\<exists>r rest'. 1 \<le> r \<and> r \<le> attack_power e \<and>
                 rest = MsgRetaliates (e_name e) r (hp (player s) - r) # rest' \<and>
                 player s' = (player s)\<lparr>hp := hp (player s) - r\<rparr>))"
proof -
  obtain cs where cls: "map_of CLASS_STATS (player_class (player s)) = Some cs"
    using use_class_skill_no_class [OF room en live] res
    by (cases "map_of CLASS_STATS (player_class (player s))") auto
  obtain b w1 where boost: "randint 10 15 w = Inr (b, w1)"
    using randint_total [of 10 15 w] by auto
  have range: "10 \<le> b \<and> b \<le> 15" using randint_range [OF boost] .
  show ?thesis
  proof (cases "e_hp e - b \<le> 0")
    case True
    show ?thesis
    proof (cases "map_of (tasks (player s)) ''stun_opponent''")
      case None
      from use_class_skill_kill_no_key [OF room en live cls boost True None] res
      show ?thesis by simp
    next
      case (Some flag)
      from use_class_skill_kill [OF room en live cls boost True Some] res
      have "output_area s' = output_area s @ MsgSkill (skill_name cs) b (e_hp e - b) #
              ([MsgDefeated (e_name e), MsgGainExp (exp_reward e)] @
               (if flag then [] else [MsgTaskStun]))"
        and "Option.bind (rooms s' (location (player s))) enemy = None"
        by auto
      with range True show ?thesis by auto
    qed
  next
    case False
    then have survive: "0 < e_hp e - b" by simp
    note eq = use_class_skill_survive [OF room en live cls boost survive]
    show ?thesis
    proof (cases "randint 1 (attack_power e) w1")
      case (Inl err)
      with eq res show ?thesis by simp
    next
      case (Inr rw)
      obtain r w2 where rw: "rw = (r, w2)" by (cases rw)
      have ret: "randint 1 (attack_power e) w1 = Inr (r, w2)" using Inr rw by simp
      have rr: "1 \<le> r \<and> r \<le> attack_power e" using randint_range [OF ret] .
      from eq ret res
      have "rooms s' (location (player s)) =
              Some (room\<lparr>enemy := Some (e\<lparr>e_hp := e_hp e - b\<rparr>)\<rparr>)"
        and "player s' = (player s)\<lparr>hp := hp (player s) - r\<rparr>"
        and "\<exists>more. output_area s' = output_area s @ MsgSkill (skill_name cs) b (e_hp e - b) #
               MsgRetaliates (e_name e) r (hp (player s) - r) # more"
        by (auto split: if_splits)
      with range rr survive show ?thesis by auto
    qed
  qed
qed

text \<open>
  Claim C4. In an exchange with a live enemy that returns normally, for a player whose
  base attack is not negative. A basic attack subtracts a damage \<open>d\<close> from
  \<open>max 0 (base_attack - 2)\<close> to \<open>base_attack + 2\<close> from the hit points of the enemy, and a
  skill attack a bonus damage \<open>b\<close> from 10 to 15: the line written reports the hit points
  left, an enemy brought to 0 or below is gone from the room, and a surviving enemy stays
  with exactly the reduced hit points. When the enemy survives, it subtracts a damage
  \<open>r\<close> from 1 to its attack power from the hit points of the player: after a skill attack
  the player is the player before with \<open>hp - r\<close>; after a basic attack likewise, unless
  \<open>hp - r\<close> is 0 or below and under the maximum, where the self-heal of the fall adds a
  draw \<open>h\<close> from 5 to 15 to \<open>hp - r\<close>, capped at the maximum. No other field of the
  player changes.
\<close>

theorem damage_ranges:
  assumes room: "rooms s (location (player s)) = Some room"
    and en: "enemy room = Some e" and live: "is_alive e"
    and atk: "0 \<le> base_attack (player s)"
  shows "(\<forall>s' w'. attack_enemy s w = Inr (s', w') \<longrightarrow>
           (\<exists>d rest. max 0 (base_attack (player s) - 2) \<le> d \<and> d \<le> base_attack (player s) + 2 \<and>
              output_area s' = output_area s @ MsgLash (e_name e) d (e_hp e - d) # rest \<and>
              (e_hp e - d \<le> 0 \<longrightarrow>
                 Option.bind (rooms s' (location (player s))) enemy = None) \<and>
              (0 < e_hp e - d \<longrightarrow>
                 Option.bind (rooms s' (location (player s))) enemy =
                   Some (e\<lparr>e_hp := e_hp e - d\<rparr>) \<and>
                 (\<exists>r rest'. 1 \<le> r \<and> r \<le> attack_power e \<and>
                    rest = MsgCounter (e_name e) r (hp (player s) - r) # rest' \<and>
                    (0 < hp (player s) - r \<or> max_hp (player s) \<le> hp (player s) - r \<longrightarrow>
                       player s' = (player s)\<lparr>hp := hp (player s) - r\<rparr>) \<and>
                    (hp (player s) - r \<le> 0 \<and> hp (player s) - r < max_hp (player s) \<longrightarrow>
                       (\<exists>h. 5 \<le> h \<and> h \<le> 15 \<and>
                          player s' = (player s)
                            \<lparr>hp := min (hp (player s) - r + h) (max_hp (player s))\<rparr>)))))) \<and>
         (\<forall>s' w'. use_class_skill s w = Inr (s', w') \<longrightarrow>
           (\<exists>b skill rest. 10 \<le> b \<and> b \<le> 15 \<and>
              output_area s' = output_area s @ MsgSkill skill b (e_hp e - b) # rest \<and>
              (e_hp e - b \<le> 0 \<longrightarrow>
                 Option.bind (rooms s' (location (player s))) enemy = None) \<and>
              (0 < e_hp e - b \<longrightarrow>
                 Option.bind (rooms s' (location (player s))) enemy =
                   Some (e\<lparr>e_hp := e_hp e - b\<rparr>) \<and>
                 (\<exists>r rest'. 1 \<le> r \<and> r \<le> attack_power e \<and>
                    rest = MsgRetaliates (e_name e) r (hp (player s) - r) # rest' \<and>
                    player s' = (player s)\<lparr>hp := hp (player s) - r\<rparr>))))"
  using attack_enemy_damage [OF room en live atk] use_class_skill_damage [OF room en live]
  by blast

lemma temple_enemy [simp]:
  "Option.bind (haunted_temple h ''temple_of_stillness'') enemy =
     Some ((new_enemy (ENEMY_POOL ! 0))\<lparr>e_hp := h\<rparr>)"
  by simp

text \<open>
  The idle hero attacks an enemy at 100 hit points, once with a basic attack and once with
  the skill; the enemy survives and strikes back.
\<close>

theorem damage_ranges_witness:
  "is_alive ((new_enemy (ENEMY_POOL ! 0))\<lparr>e_hp := 100\<rparr>) \<and>
   0 \<le> base_attack (player (started_game idle_hero (haunted_temple 100))) \<and>
   \<not> isl (attack_enemy (started_game idle_hero (haunted_temple 100)) (steady_env 4 50)) \<and>
   (\<exists>d rest. 6 \<le> d \<and> d \<le> 10 \<and>
      output_area (fst (projr (attack_enemy (started_game idle_hero (haunted_temple 100))
         (steady_env 4 50)))) = MsgLash ''Anti Claws'' d (100 - d) # rest \<and>
      0 < 100 - d \<and>
      (\<exists>r rest'. 1 \<le> r \<and> r \<le> 12 \<and> rest = MsgCounter ''Anti Claws'' r (120 - r) # rest' \<and>
         0 < 120 - r \<and>
         player (fst (projr (attack_enemy (started_game idle_hero (haunted_temple 100))
            (steady_env 4 50)))) = idle_hero\<lparr>hp := 120 - r\<rparr>)) \<and>
   \<not> isl (use_class_skill (started_game idle_hero (haunted_temple 100)) (steady_env 4 50)) \<and>
   (\<exists>b skill rest. 10 \<le> b \<and> b \<le> 15 \<and>
      output_area (fst (projr (use_class_skill (started_game idle_hero (haunted_temple 100))
         (steady_env 4 50)))) = MsgSkill skill b (100 - b) # rest \<and>
      0 < 100 - b \<and>
      (\<exists>r rest'. 1 \<le> r \<and> r \<le> 12 \<and> rest = MsgRetaliates ''Anti Claws'' r (120 - r) # rest' \<and>
         player (fst (projr (use_class_skill (started_game idle_hero (haunted_temple 100))
            (steady_env 4 50)))) = idle_hero\<lparr>hp := 120 - r\<rparr>))"
proof -
  let ?s = "started_game idle_hero (haunted_temple 100)"
  let ?w = "steady_env 4 50"
  let ?e = "(new_enemy (ENEMY_POOL ! 0))\<lparr>e_hp := 100\<rparr>"
  let ?room = "temple_of_stillness\<lparr>enemy := Some ?e\<rparr>"
  have room: "rooms ?s (location (player ?s)) = Some ?room" by simp
  have en: "enemy ?room = Some ?e" by simp
  have live: "is_alive ?e" by (simp add: is_alive_def)
  have atk: "0 \<le> base_attack (player ?s)" by simp
  have roll: "randint (base_attack (player ?s) - 2) (base_attack (player ?s) + 2) ?w = Inr (10, ?w)"
    by (simp add: randint_steady)
  have d: "(if (10::int) < 0 then 0 else 10) = 10" by simp
  have survive: "0 < e_hp ?e - 10" by simp
  have ran: "\<not> isl (attack_enemy ?s ?w)"
    using attack_enemy_survive [OF room en live roll d survive]
    by (simp add: randint_steady)
  then have ev: "attack_enemy ?s ?w =
      Inr (fst (projr (attack_enemy ?s ?w)), snd (projr (attack_enemy ?s ?w)))"
    by (cases "attack_enemy ?s ?w") simp_all
  let ?t = "fst (projr (attack_enemy ?s ?w))"
  from damage_ranges [OF room en live atk, of ?w, THEN conjunct1, rule_format, OF ev]
  obtain d rest where
    lo: "max 0 (base_attack (player ?s) - 2) \<le> d" and hi: "d \<le> base_attack (player ?s) + 2"
    and out: "output_area ?t = output_area ?s @ MsgLash (e_name ?e) d (e_hp ?e - d) # rest"
    and surv: "0 < e_hp ?e - d \<longrightarrow>
       Option.bind (rooms ?t (location (player ?s))) enemy = Some (?e\<lparr>e_hp := e_hp ?e - d\<rparr>) \<and>
       (\<exists>r rest'. 1 \<le> r \<and> r \<le> attack_power ?e \<and>
          rest = MsgCounter (e_name ?e) r (hp (player ?s) - r) # rest' \<and>
          (0 < hp (player ?s) - r \<or> max_hp (player ?s) \<le> hp (player ?s) - r \<longrightarrow>
             player ?t = (player ?s)\<lparr>hp := hp (player ?s) - r\<rparr>) \<and>
          (hp (player ?s) - r \<le> 0 \<and> hp (player ?s) - r < max_hp (player ?s) \<longrightarrow>
             (\<exists>h. 5 \<le> h \<and> h \<le> 15 \<and>
                player ?t = (player ?s)
                  \<lparr>hp := min (hp (player ?s) - r + h) (max_hp (player ?s))\<rparr>)))"
    by blast
  from lo hi have d1: "6 \<le> d" and d2: "d \<le> 10" by simp_all
  from d2 have d3: "0 < 100 - d" by simp
  then have "0 < e_hp ?e - d" by simp
  with surv obtain r rest' where
    r1: "1 \<le> r" and r2: "r \<le> attack_power ?e"
    and cnt: "rest = MsgCounter (e_name ?e) r (hp (player ?s) - r) # rest'"
    and pl: "0 < hp (player ?s) - r \<or> max_hp (player ?s) \<le> hp (player ?s) - r \<longrightarrow>
             player ?t = (player ?s)\<lparr>hp := hp (player ?s) - r\<rparr>"
    by blast
  from r2 have r3: "r \<le> 12" by simp
  then have r4: "0 < 120 - r" by simp
  then have "0 < hp (player ?s) - r" by simp
  with pl have "player ?t = (player ?s)\<lparr>hp := hp (player ?s) - r\<rparr>" by blast
  then have p2: "player ?t = idle_hero\<lparr>hp := 120 - r\<rparr>" by simp
  from out have o2: "output_area ?t = MsgLash ''Anti Claws'' d (100 - d) # rest" by simp
  from cnt have c2: "rest = MsgCounter ''Anti Claws'' r (120 - r) # rest'" by simp
  have basic: "\<exists>d rest. 6 \<le> d \<and> d \<le> 10 \<and>
      output_area ?t = MsgLash ''Anti Claws'' d (100 - d) # rest \<and> 0 < 100 - d \<and>
      (\<exists>r rest'. 1 \<le> r \<and> r \<le> 12 \<and> rest = MsgCounter ''Anti Claws'' r (120 - r) # rest' \<and>
         0 < 120 - r \<and> player ?t = idle_hero\<lparr>hp := 120 - r\<rparr>)"
    using d1 d2 d3 o2 r1 r3 c2 r4 p2 by blast
  let ?u = "fst (projr (use_class_skill ?s ?w))"
  have cls: "map_of CLASS_STATS (player_class (player ?s)) = Some (snd (CLASS_STATS ! 0))"
    by (simp add: CLASS_STATS_def)
  have boost: "randint 10 15 ?w = Inr (14, ?w)" by (simp add: randint_steady)
  have surv2: "0 < e_hp ?e - 14" by simp
  have ran2: "\<not> isl (use_class_skill ?s ?w)"
    using use_class_skill_survive [OF room en live cls boost surv2]
    by (simp add: randint_steady)
  then have ev2: "use_class_skill ?s ?w =
      Inr (fst (projr (use_class_skill ?s ?w)), snd (projr (use_class_skill ?s ?w)))"
    by (cases "use_class_skill ?s ?w") simp_all
  from damage_ranges [OF room en live atk, of ?w, THEN conjunct2, rule_format, OF ev2]
  obtain b skill rest2 where
    b1: "10 \<le> b" and b2: "b \<le> 15"
    and out2: "output_area ?u = output_area ?s @ MsgSkill skill b (e_hp ?e - b) # rest2"
    and surv3: "0 < e_hp ?e - b \<longrightarrow>
       Option.bind (rooms ?u (location (player ?s))) enemy = Some (?e\<lparr>e_hp := e_hp ?e - b\<rparr>) \<and>
       (\<exists>r rest'. 1 \<le> r \<and> r \<le> attack_power ?e \<and>
          rest2 = MsgRetaliates (e_name ?e) r (hp (player ?s) - r) # rest' \<and>
          player ?u = (player ?s)\<lparr>hp := hp (player ?s) - r\<rparr>)"
    by blast
  from b2 have b3: "0 < 100 - b" by simp
  then have "0 < e_hp ?e - b" by simp
  with surv3 obtain q rest3 where
    q1: "1 \<le> q" and q2: "q \<le> attack_power ?e"
    and cnt2: "rest2 = MsgRetaliates (e_name ?e) q (hp (player ?s) - q) # rest3"
    and pl2: "player ?u = (player ?s)\<lparr>hp := hp (player ?s) - q\<rparr>"
    by blast
  from q2 have q3: "q \<le> 12" by simp
  from pl2 have p3: "player ?u = idle_hero\<lparr>hp := 120 - q\<rparr>" by simp
  from out2 have o3: "output_area ?u = MsgSkill skill b (100 - b) # rest2" by simp
  from cnt2 have c3: "rest2 = MsgRetaliates ''Anti Claws'' q (120 - q) # rest3" by simp
  have skill: "\<exists>b skill rest. 10 \<le> b \<and> b \<le> 15 \<and>
      output_area ?u = MsgSkill skill b (100 - b) # rest \<and> 0 < 100 - b \<and>
      (\<exists>r rest'. 1 \<le> r \<and> r \<le> 12 \<and> rest = MsgRetaliates ''Anti Claws'' r (120 - r) # rest' \<and>
         player ?u = idle_hero\<lparr>hp := 120 - r\<rparr>)"
    using b1 b2 b3 o3 q1 q3 c3 p3 by blast
  from live atk ran basic ran2 skill show ?thesis by blast
qed

lemma default_stun [simp]: "map_of default_tasks ''stun_opponent'' = Some False"
  by (simp add: default_tasks_def)


text \<open>The same exchange as an instance of the theorem.\<close>

theorem fallen_player_heal_witness:
  "is_alive ((new_enemy (ENEMY_POOL ! 0))\<lparr>e_hp := 100\<rparr>) \<and>
   randint 1 (attack_power ((new_enemy (ENEMY_POOL ! 0))\<lparr>e_hp := 100\<rparr>)) (steady_env 4 50) =
     Inr (5, steady_env 4 50) \<and>
   hp (player (started_game (idle_hero\<lparr>hp := 3\<rparr>) (haunted_temple 100))) - 5 \<le> 0 \<and>
   (\<exists>h w3 s'. randint 5 15 (steady_env 4 50) = Inr (h, w3) \<and> 5 \<le> h \<and> h \<le> 15 \<and>
      attack_enemy (started_game (idle_hero\<lparr>hp := 3\<rparr>) (haunted_temple 100)) (steady_env 4 50) =
        Inr (s', w3) \<and>
      hp (player s') = min (3 - 5 + h) 120 \<and>
      command_entry_enabled s' \<and>
      MsgGameOver \<notin> set (output_area s'))"
proof -
  let ?s = "started_game (idle_hero\<lparr>hp := 3\<rparr>) (haunted_temple 100)"
  let ?w = "steady_env 4 50"
  let ?e = "(new_enemy (ENEMY_POOL ! 0))\<lparr>e_hp := 100\<rparr>"
  let ?room = "temple_of_stillness\<lparr>enemy := Some ?e\<rparr>"
  have room: "rooms ?s (location (player ?s)) = Some ?room" by simp
  have en: "enemy ?room = Some ?e" by simp
  have live: "is_alive ?e" by (simp add: is_alive_def)
  have roll: "randint (base_attack (player ?s) - 2) (base_attack (player ?s) + 2) ?w = Inr (10, ?w)"
    by (simp add: randint_steady)
  have survive: "0 < e_hp ?e - max 0 10" by simp
  have ret: "randint 1 (attack_power ?e) ?w = Inr (5, ?w)"
    by (simp add: randint_steady)
  have fallen: "hp (player ?s) - 5 \<le> 0" by simp
  have mhp: "0 < max_hp (player ?s)" by simp
  from fallen_player_heal [OF room en live roll survive ret fallen mhp]
  have "\<exists>h w3 s'. randint 5 15 ?w = Inr (h, w3) \<and> 5 \<le> h \<and> h \<le> 15 \<and>
      attack_enemy ?s ?w = Inr (s', w3) \<and>
      hp (player s') = min (3 - 5 + h) 120 \<and>
      command_entry_enabled s' \<and>
      MsgGameOver \<notin> set (output_area s')"
    by (simp add: started_game_def) blast
  with live ret fallen show ?thesis by blast
qed

section \<open>Failed preconditions and items\<close>

lemma write_line_frame:
  "write_line m s = s\<lparr>output_area := output_area s @ [m]\<rparr>"
  by (simp add: write_line_def)

text \<open>
  Claim C9. When the precondition of an operation fails, the operation writes its one
  line and returns the state as it was, the player, every room and the random draws
  included: an attack or a skill use in a room without a live enemy, a move in a
  direction that is no exit of the room or leads to \<open>None\<close>, the pickup of an item that
  is not in the room, the drop or the use of an item that is not held.
\<close>

theorem failed_precondition_no_change:
  shows "(\<forall>room. rooms s (location (player s)) = Some room \<and> \<not> has_live_enemy room \<longrightarrow>
            attack_enemy s w = Inr (s\<lparr>output_area := output_area s @ [MsgNothingToAttack]\<rparr>, w) \<and>
            use_class_skill s w = Inr (s\<lparr>output_area := output_area s @ [MsgNoEnemyForSkill]\<rparr>, w)) \<and>
         (\<forall>room. rooms s (location (player s)) = Some room \<and>
            (map_of (exits room) direction = None \<or> map_of (exits room) direction = Some None) \<longrightarrow>
            move_player s direction w = Inr (s\<lparr>output_area := output_area s @ [MsgCantGo]\<rparr>, w)) \<and>
         (\<forall>room. rooms s (location (player s)) = Some room \<and> item_name \<notin> set (items room) \<longrightarrow>
            pickup_item s item_name = Inr (s\<lparr>output_area := output_area s @ [MsgItemNotHere]\<rparr>)) \<and>
         (item_name \<notin> set (inventory (player s)) \<longrightarrow>
            drop_item s item_name = Inr (s\<lparr>output_area := output_area s @ [MsgNoItem]\<rparr>) \<and>
            use_item s item_name w = Inr (s\<lparr>output_area := output_area s @ [MsgNotInBag]\<rparr>, w))"
  by (auto simp: attack_enemy_def use_class_skill_def move_player_def pickup_item_def
      drop_item_def use_item_def write_line_def has_live_enemy_def split: option.splits)

lemma str_contains_iff: "str_contains sub str \<longleftrightarrow> (\<exists>ps ss. str = ps @ sub @ ss)"
proof (induction str)
  case Nil
  then show ?case by auto
next
  case (Cons c cs)
  have "take (length sub) (c # cs) = sub \<longleftrightarrow> (\<exists>ss. c # cs = sub @ ss)"
    by (metis append_eq_conv_conj append_take_drop_id)
  moreover have "(\<exists>ps ss. c # cs = ps @ sub @ ss) \<longleftrightarrow>
      (\<exists>ss. c # cs = sub @ ss) \<or> (\<exists>ps ss. cs = ps @ sub @ ss)"
  proof
    assume "\<exists>ps ss. c # cs = ps @ sub @ ss"
    then obtain ps ss where e: "c # cs = ps @ sub @ ss" by blast
    show "(\<exists>ss. c # cs = sub @ ss) \<or> (\<exists>ps ss. cs = ps @ sub @ ss)"
    proof (cases ps)
      case Nil
      with e show ?thesis by auto
    next
      case (Cons a qs)
      with e have "cs = qs @ sub @ ss" by simp
      then show ?thesis by blast
    qed
  next
    assume "(\<exists>ss. c # cs = sub @ ss) \<or> (\<exists>ps ss. cs = ps @ sub @ ss)"
    then show "\<exists>ps ss. c # cs = ps @ sub @ ss"
    proof
      assume "\<exists>ss. c # cs = sub @ ss"
      then obtain ss where "c # cs = [] @ sub @ ss" by auto
      then show ?thesis by blast
    next
      assume "\<exists>ps ss. cs = ps @ sub @ ss"
      then obtain ps ss where "cs = ps @ sub @ ss" by blast
      then have "c # cs = (c # ps) @ sub @ ss" by simp
      then show ?thesis by blast
    qed
  qed
  ultimately show ?case using Cons.IH by simp
qed

lemma count_list_remove1:
  "x \<in> set xs \<Longrightarrow> count_list (remove1 x xs) x + 1 = count_list xs x"
  by (induction xs) auto

text \<open>
  Claim C10. For a held item: when its name does not contain \<open>healing_potion\<close>,
  \<open>use_item\<close> writes its one line and changes nothing else, the inventory included;
  when it does, a draw \<open>h\<close> from 20 to 40 is added to the hit points, the result capped
  at the maximum, and one occurrence of the item (the first) leaves the inventory.
\<close>

theorem use_item_effect:
  assumes held: "item_name \<in> set (inventory (player s))"
  shows "(\<not> str_contains ''healing_potion'' item_name \<longrightarrow>
            use_item s item_name w = Inr (s\<lparr>output_area := output_area s @ [MsgCantUse]\<rparr>, w)) \<and>
         (str_contains ''healing_potion'' item_name \<longrightarrow>
            (\<exists>h w1. randint 20 40 w = Inr (h, w1) \<and> 20 \<le> h \<and> h \<le> 40 \<and>
               use_item s item_name w =
                 Inr (s\<lparr>player := (player s)
                          \<lparr>hp := min (hp (player s) + h) (max_hp (player s)),
                           inventory := remove1 item_name (inventory (player s))\<rparr>,
                        output_area := output_area s @
                          [MsgDrink h (min (hp (player s) + h) (max_hp (player s)))]\<rparr>, w1) \<and>
               count_list (remove1 item_name (inventory (player s))) item_name + 1 =
                 count_list (inventory (player s)) item_name))"
proof (intro conjI impI)
  assume "\<not> str_contains ''healing_potion'' item_name"
  with held show "use_item s item_name w = Inr (s\<lparr>output_area := output_area s @ [MsgCantUse]\<rparr>, w)"
    by (simp add: use_item_def write_line_def)
next
  assume potion: "str_contains ''healing_potion'' item_name"
  obtain h w1 where heal: "randint 20 40 w = Inr (h, w1)"
    using randint_total [of 20 40 w] by auto
  have range: "20 \<le> h \<and> h \<le> 40" using randint_range [OF heal] .
  have "use_item s item_name w =
      Inr (s\<lparr>player := (player s)
               \<lparr>hp := min (hp (player s) + h) (max_hp (player s)),
                inventory := remove1 item_name (inventory (player s))\<rparr>,
             output_area := output_area s @
               [MsgDrink h (min (hp (player s) + h) (max_hp (player s)))]\<rparr>, w1)"
    using held potion heal
    by (cases s) (simp add: use_item_def Let_def write_line_def del: str_contains.simps)
  with heal range count_list_remove1 [OF held]
  show "\<exists>h w1. randint 20 40 w = Inr (h, w1) \<and> 20 \<le> h \<and> h \<le> 40 \<and>
               use_item s item_name w =
                 Inr (s\<lparr>player := (player s)
                          \<lparr>hp := min (hp (player s) + h) (max_hp (player s)),
                           inventory := remove1 item_name (inventory (player s))\<rparr>,
                        output_area := output_area s @
                          [MsgDrink h (min (hp (player s) + h) (max_hp (player s)))]\<rparr>, w1) \<and>
               count_list (remove1 item_name (inventory (player s))) item_name + 1 =
                 count_list (inventory (player s)) item_name"
    by blast
qed


lemma rooms_excerpt_temple [simp]:
  "rooms_excerpt ''temple_of_stillness'' = Some temple_of_stillness"
  by (simp add: rooms_excerpt_def)

lemma temple_fields [simp]:
  "enemy temple_of_stillness = None"
  "exits temple_of_stillness =
     [(''northwest'', Some ''downtown_gads_landing''), (''east'', Some ''outer_courtyard'')]"
  "items temple_of_stillness =
     [''pair_of_red_fur_claws'', ''pair_of_red_fur_claws'', ''pair_of_red_fur_claws'']"
  "respawn_timer temple_of_stillness = 0"
  by (simp_all add: temple_of_stillness_def Room_init_def)

text \<open>
  The idle hero in the temple, which has no enemy, no exit to the north and no sword, with
  an empty bag.
\<close>

theorem failed_precondition_no_change_witness:
  "\<not> has_live_enemy temple_of_stillness \<and>
   map_of (exits temple_of_stillness) ''north'' = None \<and>
   ''sword'' \<notin> set (items temple_of_stillness) \<and>
   ''sword'' \<notin> set (inventory idle_hero) \<and>
   attack_enemy (started_game idle_hero rooms_excerpt) (steady_env 4 50) =
     Inr ((started_game idle_hero rooms_excerpt)\<lparr>output_area := [MsgNothingToAttack]\<rparr>,
          steady_env 4 50) \<and>
   use_class_skill (started_game idle_hero rooms_excerpt) (steady_env 4 50) =
     Inr ((started_game idle_hero rooms_excerpt)\<lparr>output_area := [MsgNoEnemyForSkill]\<rparr>,
          steady_env 4 50) \<and>
   move_player (started_game idle_hero rooms_excerpt) ''north'' (steady_env 4 50) =
     Inr ((started_game idle_hero rooms_excerpt)\<lparr>output_area := [MsgCantGo]\<rparr>,
          steady_env 4 50) \<and>
   pickup_item (started_game idle_hero rooms_excerpt) ''sword'' =
     Inr ((started_game idle_hero rooms_excerpt)\<lparr>output_area := [MsgItemNotHere]\<rparr>) \<and>
   drop_item (started_game idle_hero rooms_excerpt) ''sword'' =
     Inr ((started_game idle_hero rooms_excerpt)\<lparr>output_area := [MsgNoItem]\<rparr>) \<and>
   use_item (started_game idle_hero rooms_excerpt) ''sword'' (steady_env 4 50) =
     Inr ((started_game idle_hero rooms_excerpt)\<lparr>output_area := [MsgNotInBag]\<rparr>,
          steady_env 4 50)"
proof -
  let ?s = "started_game idle_hero rooms_excerpt"
  have room: "rooms ?s (location (player ?s)) = Some temple_of_stillness" by simp
  have dead: "\<not> has_live_enemy temple_of_stillness" by (simp add: has_live_enemy_def)
  have wall: "map_of (exits temple_of_stillness) ''north'' = None" by simp
  have absent: "''sword'' \<notin> set (items temple_of_stillness)" by simp
  have unheld: "''sword'' \<notin> set (inventory (player ?s))" by simp
  from failed_precondition_no_change [where s = ?s and w = "steady_env 4 50"
      and direction = "''north''" and item_name = "''sword''"]
    room dead wall absent unheld
  show ?thesis by simp
qed

text \<open>
  A bag with two potions and a wooden sword: the sword stays, the first potion is drunk.
\<close>

theorem use_item_effect_witness:
  "''wooden_sword'' \<in> set [''healing_potion'', ''wooden_sword'', ''healing_potion''] \<and>
   \<not> str_contains ''healing_potion'' ''wooden_sword'' \<and>
   str_contains ''healing_potion'' ''healing_potion'' \<and>
   use_item (started_game (idle_hero\<lparr>hp := 90,
        inventory := [''healing_potion'', ''wooden_sword'', ''healing_potion'']\<rparr>) rooms_excerpt)
      ''wooden_sword'' (steady_env 4 50) =
     Inr ((started_game (idle_hero\<lparr>hp := 90,
        inventory := [''healing_potion'', ''wooden_sword'', ''healing_potion'']\<rparr>) rooms_excerpt)
          \<lparr>output_area := [MsgCantUse]\<rparr>, steady_env 4 50) \<and>
   use_item (started_game (idle_hero\<lparr>hp := 90,
        inventory := [''healing_potion'', ''wooden_sword'', ''healing_potion'']\<rparr>) rooms_excerpt)
      ''healing_potion'' (steady_env 4 50) =
     Inr ((started_game (idle_hero\<lparr>hp := 114,
        inventory := [''wooden_sword'', ''healing_potion'']\<rparr>) rooms_excerpt)
          \<lparr>output_area := [MsgDrink 24 114]\<rparr>, steady_env 4 50)"
proof -
  let ?p = "idle_hero\<lparr>hp := 90,
        inventory := [''healing_potion'', ''wooden_sword'', ''healing_potion'']\<rparr>"
  let ?s = "started_game ?p rooms_excerpt"
  have sword: "''wooden_sword'' \<in> set (inventory (player ?s))" by simp
  have potion: "''healing_potion'' \<in> set (inventory (player ?s))" by simp
  have no: "\<not> str_contains ''healing_potion'' ''wooden_sword''" by simp
  have yes: "str_contains ''healing_potion'' ''healing_potion''" by simp
  have draw: "randint 20 40 (steady_env 4 50) = Inr (24, steady_env 4 50)"
    by (simp add: randint_steady)
  from use_item_effect [OF sword, of "steady_env 4 50"] no
  have first: "use_item ?s ''wooden_sword'' (steady_env 4 50) =
      Inr (?s\<lparr>output_area := [MsgCantUse]\<rparr>, steady_env 4 50)"
    by simp
  from use_item_effect [OF potion, of "steady_env 4 50"] yes draw
  have second: "use_item ?s ''healing_potion'' (steady_env 4 50) =
      Inr ((started_game (idle_hero\<lparr>hp := 114,
        inventory := [''wooden_sword'', ''healing_potion'']\<rparr>) rooms_excerpt)
          \<lparr>output_area := [MsgDrink 24 114]\<rparr>, steady_env 4 50)"
    by (simp add: started_game_def del: str_contains.simps)
  from first second no yes show ?thesis by simp
qed

section \<open>What each operation changes\<close>

lemma randint_readings: "randint a b w = Inr (v, w') \<Longrightarrow> readings w' = readings w"
  by (auto simp: randint_def next_draw_def split: if_splits)

lemma choice_readings: "choice xs w = Inr (v, w') \<Longrightarrow> readings w' = readings w"
  by (auto simp: choice_def next_draw_def split: if_splits)

lemma time_time_readings: "readings (snd (time_time w)) = (\<lambda>n. readings w (Suc n))"
  by (simp add: time_time_def)

lemma clock_later_refl: "clock_later w w"
  unfolding clock_later_def by (rule exI [of _ 0]) simp

lemma clock_later_same: "readings w' = readings w \<Longrightarrow> clock_later w w'"
  unfolding clock_later_def by (rule exI [of _ 0]) simp

lemma clock_later_trans: "clock_later w w1 \<Longrightarrow> clock_later w1 w2 \<Longrightarrow> clock_later w w2"
proof -
  assume "clock_later w w1" and "clock_later w1 w2"
  then obtain i j where a: "\<forall>n. readings w1 n = readings w (n + i)"
    and b: "\<forall>n. readings w2 n = readings w1 (n + j)"
    unfolding clock_later_def by blast
  have "\<forall>n. readings w2 n = readings w (n + (j + i))"
    using a b by (simp add: add.assoc)
  then show ?thesis unfolding clock_later_def by blast
qed

lemma clock_later_tick: "readings w1 = readings w \<Longrightarrow> clock_later w (snd (time_time w1))"
  unfolding clock_later_def by (rule exI [of _ 1]) (simp add: time_time_def)

lemma attack_enemy_idle:
  "rooms s (location (player s)) = Some room \<Longrightarrow> \<not> has_live_enemy room \<Longrightarrow>
     attack_enemy s w = Inr (s\<lparr>output_area := output_area s @ [MsgNothingToAttack]\<rparr>, w)"
  by (auto simp: attack_enemy_def write_line_def has_live_enemy_def split: option.splits)

lemma use_class_skill_idle:
  "rooms s (location (player s)) = Some room \<Longrightarrow> \<not> has_live_enemy room \<Longrightarrow>
     use_class_skill s w = Inr (s\<lparr>output_area := output_area s @ [MsgNoEnemyForSkill]\<rparr>, w)"
  by (auto simp: use_class_skill_def write_line_def has_live_enemy_def split: option.splits)

lemma attack_enemy_cases [consumes 1, case_names idle kill hit fall]:
  assumes res: "attack_enemy s w = Inr (s', w')"
  obtains
    (idle) "s' = s\<lparr>output_area := output_area s @ [MsgNothingToAttack]\<rparr>" "w' = w"
  | (kill) room e d w1 flag where
      "rooms s (location (player s)) = Some room" "enemy room = Some e" "is_alive e"
      "readings w1 = readings w"
      "s' = s\<lparr>player := (add_experience (player s) (exp_reward e))
                 \<lparr>tasks := AList.update ''stun_opponent'' True (tasks (player s))\<rparr>,
              rooms := (rooms s)(location (player s) \<mapsto>
                 room\<lparr>enemy := None, respawn_timer := fst (time_time w1) + RESPAWN_TIME\<rparr>),
              output_area := output_area s @
                 [MsgLash (e_name e) d (e_hp e - d),
                  MsgDefeated (e_name e), MsgGainExp (exp_reward e)] @
                 (if flag then [] else [MsgTaskStun])\<rparr>"
      "w' = snd (time_time w1)"
  | (hit) room e d r where
      "rooms s (location (player s)) = Some room" "enemy room = Some e" "is_alive e"
      "0 < e_hp e - d" "readings w' = readings w"
      "s' = s\<lparr>player := (player s)\<lparr>hp := hp (player s) - r\<rparr>,
              rooms := (rooms s)(location (player s) \<mapsto>
                 room\<lparr>enemy := Some (e\<lparr>e_hp := e_hp e - d\<rparr>)\<rparr>),
              output_area := output_area s @
                [MsgLash (e_name e) d (e_hp e - d),
                 MsgCounter (e_name e) r (hp (player s) - r)]\<rparr>"
  | (fall) room e d r w2 where
      "rooms s (location (player s)) = Some room" "enemy room = Some e" "is_alive e"
      "0 < e_hp e - d" "readings w2 = readings w"
      "heal_player
         (s\<lparr>player := (player s)\<lparr>hp := hp (player s) - r\<rparr>,
            rooms := (rooms s)(location (player s) \<mapsto>
               room\<lparr>enemy := Some (e\<lparr>e_hp := e_hp e - d\<rparr>)\<rparr>),
            output_area := output_area s @
              [MsgLash (e_name e) d (e_hp e - d),
               MsgCounter (e_name e) r (hp (player s) - r), MsgSuccumb]\<rparr>) w2 = Inr (s', w')"
proof -
  obtain room where room: "rooms s (location (player s)) = Some room"
    using res by (cases "rooms s (location (player s))") (auto simp: attack_enemy_def)
  show thesis
  proof (cases "has_live_enemy room")
    case False
    from attack_enemy_idle [OF room False] res
    have "s' = s\<lparr>output_area := output_area s @ [MsgNothingToAttack]\<rparr>" "w' = w"
      by auto
    then show thesis by (rule idle)
  next
    case True
    then obtain e where en: "enemy room = Some e" and live: "is_alive e"
      by (auto simp: has_live_enemy_def split: option.splits)
    obtain roll w1 where roll:
      "randint (base_attack (player s) - 2) (base_attack (player s) + 2) w = Inr (roll, w1)"
      using randint_total [of "base_attack (player s) - 2" "base_attack (player s) + 2" w] by auto
    define d where "d = max 0 roll"
    have d: "(if roll < 0 then 0 else roll) = d" by (simp add: d_def)
    have rd1: "readings w1 = readings w" using randint_readings [OF roll] .
    show thesis
    proof (cases "e_hp e - d \<le> 0")
      case True
      show thesis
      proof (cases "map_of (tasks (player s)) ''stun_opponent''")
        case None
        from attack_enemy_kill_no_key [OF room en live roll d True None] res show thesis by simp
      next
        case (Some flag)
        from attack_enemy_kill [OF room en live roll d True Some] res
        show thesis by (intro kill [OF room en live rd1]) auto
      qed
    next
      case False
      then have survive: "0 < e_hp e - d" by simp
      note eq = attack_enemy_survive [OF room en live roll d survive]
      show thesis
      proof (cases "randint 1 (attack_power e) w1")
        case (Inl err)
        with eq res show thesis by simp
      next
        case (Inr rw)
        obtain r w2 where rw: "rw = (r, w2)" by (cases rw)
        have ret: "randint 1 (attack_power e) w1 = Inr (r, w2)" using Inr rw by simp
        have rd2: "readings w2 = readings w" using randint_readings [OF ret] rd1 by simp
        show thesis
        proof (cases "hp (player s) - r \<le> 0")
          case True
          with eq ret res show thesis
            by (intro fall [OF room en live survive rd2]) simp
        next
          case False
          with eq ret res rd2 show thesis
            by (intro hit [OF room en live survive]) auto
        qed
      qed
    qed
  qed
qed


lemma heal_player_cases [consumes 1, case_names full heals]:
  assumes res: "heal_player s w = Inr (s', w')"
  obtains
    (full) "s' = s\<lparr>output_area := output_area s @ [MsgFullHealth]\<rparr>" "w' = w"
  | (heals) h where "5 \<le> h" "h \<le> 15" "hp (player s) < max_hp (player s)"
      "readings w' = readings w"
      "s' = s\<lparr>player := (player s)\<lparr>hp := min (hp (player s) + h) (max_hp (player s))\<rparr>,
              output_area := output_area s @
                [MsgPatch h (min (hp (player s) + h) (max_hp (player s)))]\<rparr>"
proof (cases "max_hp (player s) \<le> hp (player s)")
  case True
  with res have "s' = s\<lparr>output_area := output_area s @ [MsgFullHealth]\<rparr>" "w' = w"
    by (auto simp: heal_player_full write_line_def)
  then show thesis by (rule full)
next
  case False
  then have low: "hp (player s) < max_hp (player s)" by simp
  obtain h w1 where heal: "randint 5 15 w = Inr (h, w1)"
    using randint_total [of 5 15 w] by auto
  from heal_player_heals [OF low heal] res randint_range [OF heal] randint_readings [OF heal] low
  show thesis by (intro heals [of h]) auto
qed

lemma level_loop_location: "location (level_loop p r) = location p"
proof (induction p r rule: level_loop.induct)
  case (1 p r)
  show ?case
  proof (cases "r \<le> exp_pts p")
    case True
    with "1.IH" [OF True] show ?thesis
      by (simp add: level_loop_unfold [OF True] level_up_def)
  next
    case False
    then show ?thesis by (simp add: level_loop_stop)
  qed
qed

lemma add_experience_location [simp]: "location (add_experience p a) = location p"
  by (simp add: add_experience_def level_loop_location)

lemma use_class_skill_cases [consumes 1, case_names idle kill survive]:
  assumes res: "use_class_skill s w = Inr (s', w')"
  obtains
    (idle) "s' = s\<lparr>output_area := output_area s @ [MsgNoEnemyForSkill]\<rparr>" "w' = w"
  | (kill) room e w1 where
      "rooms s (location (player s)) = Some room" "enemy room = Some e" "is_alive e"
      "readings w1 = readings w" "w' = snd (time_time w1)"
      "location (player s') = location (player s)"
      "rooms s' = (rooms s)(location (player s) \<mapsto>
         room\<lparr>enemy := None, respawn_timer := fst (time_time w1) + RESPAWN_TIME\<rparr>)"
  | (survive) room e b where
      "rooms s (location (player s)) = Some room" "enemy room = Some e" "is_alive e"
      "0 < e_hp e - b" "readings w' = readings w"
      "location (player s') = location (player s)"
      "rooms s' = (rooms s)(location (player s) \<mapsto>
         room\<lparr>enemy := Some (e\<lparr>e_hp := e_hp e - b\<rparr>)\<rparr>)"
proof -
  obtain room where room: "rooms s (location (player s)) = Some room"
    using res by (cases "rooms s (location (player s))") (auto simp: use_class_skill_def)
  show thesis
  proof (cases "has_live_enemy room")
    case False
    from use_class_skill_idle [OF room False] res
    have "s' = s\<lparr>output_area := output_area s @ [MsgNoEnemyForSkill]\<rparr>" "w' = w"
      by auto
    then show thesis by (rule idle)
  next
    case True
    then obtain e where en: "enemy room = Some e" and live: "is_alive e"
      by (auto simp: has_live_enemy_def split: option.splits)
    obtain cs where cls: "map_of CLASS_STATS (player_class (player s)) = Some cs"
      using use_class_skill_no_class [OF room en live] res
      by (cases "map_of CLASS_STATS (player_class (player s))") auto
    obtain b w1 where boost: "randint 10 15 w = Inr (b, w1)"
      using randint_total [of 10 15 w] by auto
    have rd1: "readings w1 = readings w" using randint_readings [OF boost] .
    show thesis
    proof (cases "e_hp e - b \<le> 0")
      case True
      show thesis
      proof (cases "map_of (tasks (player s)) ''stun_opponent''")
        case None
        from use_class_skill_kill_no_key [OF room en live cls boost True None] res
        show thesis by simp
      next
        case (Some flag)
        from use_class_skill_kill [OF room en live cls boost True Some] res
        show thesis by (intro kill [OF room en live rd1]) auto
      qed
    next
      case False
      then have surv: "0 < e_hp e - b" by simp
      note eq = use_class_skill_survive [OF room en live cls boost surv]
      show thesis
      proof (cases "randint 1 (attack_power e) w1")
        case (Inl err)
        with eq res show thesis by simp
      next
        case (Inr rw)
        obtain r w2 where rw: "rw = (r, w2)" by (cases rw)
        have ret: "randint 1 (attack_power e) w1 = Inr (r, w2)" using Inr rw by simp
        have rd2: "readings w2 = readings w" using randint_readings [OF ret] rd1 by simp
        from eq ret res rd2 show thesis
          by (intro survive [OF room en live surv]) (auto split: if_splits)
      qed
    qed
  qed
qed


lemma dead_preserved_refl: "dead_preserved s s"
  by (simp add: dead_preserved_def)

lemma dead_preserved_same_rooms: "rooms s' = rooms s \<Longrightarrow> dead_preserved s s'"
  by (simp add: dead_preserved_def)

lemma dead_preserved_update_live:
  "rooms s loc = Some room \<Longrightarrow> has_live_enemy room \<Longrightarrow> rooms s' = (rooms s)(loc \<mapsto> room') \<Longrightarrow>
     dead_preserved s s'"
  by (auto simp: dead_preserved_def)

lemma dead_preserved_update_same:
  "rooms s loc = Some room \<Longrightarrow> enemy room' = enemy room \<Longrightarrow>
     respawn_timer room' = respawn_timer room \<Longrightarrow> rooms s' = (rooms s)(loc \<mapsto> room') \<Longrightarrow>
     dead_preserved s s'"
  by (auto simp: dead_preserved_def has_live_enemy_def)

lemma dead_preserved_trans:
  "dead_preserved s s1 \<Longrightarrow> dead_preserved s1 s2 \<Longrightarrow> dead_preserved s s2"
  unfolding dead_preserved_def by metis

lemma live_room: "enemy room = Some e \<Longrightarrow> is_alive e \<Longrightarrow> has_live_enemy room"
  by (simp add: has_live_enemy_def)

lemma one_action_attack: "one_action (MsgLash nm d h # ms)"
  if "filter is_attack_line ms = []" "filter is_heal_line ms = []"
  using that by (simp add: one_action_def)

lemma heal_player_effect:
  assumes res: "heal_player s w = Inr (s', w')"
  shows "location (player s') = location (player s)"
    and "rooms s' = rooms s"
    and "clock_later w w'"
    and "\<exists>new. output_area s' = output_area s @ new \<and> filter is_move_line new = [] \<and>
           filter is_attack_line new = [] \<and> length (filter is_heal_line new) \<le> 1 \<and>
           (new = [MsgFullHealth] \<or> (\<exists>h v. new = [MsgPatch h v]))"
  using res
  by (cases rule: heal_player_cases; simp add: clock_later_refl clock_later_same)+

lemma attack_enemy_effect:
  assumes res: "attack_enemy s w = Inr (s', w')"
  shows "location (player s') = location (player s)"
    and "dead_preserved s s'"
    and "clock_later w w'"
    and "\<exists>new. output_area s' = output_area s @ new \<and> filter is_move_line new = [] \<and>
           one_action new"
proof -
  show "location (player s') = location (player s)"
    using res
  proof (cases rule: attack_enemy_cases)
    case (fall room e d r w2)
    from heal_player_effect(1) [OF fall(6)] show ?thesis by simp
  qed simp_all
  show "dead_preserved s s'"
    using res
  proof (cases rule: attack_enemy_cases)
    case idle
    then show ?thesis by (simp add: dead_preserved_same_rooms)
  next
    case (kill room e d w1 flag)
    from kill(5) show ?thesis
      by (intro dead_preserved_update_live [OF kill(1) live_room [OF kill(2,3)]]) simp
  next
    case (hit room e d r)
    from hit(6) show ?thesis
      by (intro dead_preserved_update_live [OF hit(1) live_room [OF hit(2,3)]]) simp
  next
    case (fall room e d r w2)
    from heal_player_effect(2) [OF fall(6)] show ?thesis
      by (intro dead_preserved_update_live [OF fall(1) live_room [OF fall(2,3)]]) simp
  qed
  show "clock_later w w'"
    using res
  proof (cases rule: attack_enemy_cases)
    case idle
    then show ?thesis by (simp add: clock_later_refl)
  next
    case (kill room e d w1 flag)
    then show ?thesis by (simp add: clock_later_tick)
  next
    case (hit room e d r)
    then show ?thesis by (simp add: clock_later_same)
  next
    case (fall room e d r w2)
    from heal_player_effect(3) [OF fall(6)] clock_later_same [OF fall(5)]
    show ?thesis by (rule clock_later_trans [rotated])
  qed
  show "\<exists>new. output_area s' = output_area s @ new \<and> filter is_move_line new = [] \<and>
           one_action new"
    using res
  proof (cases rule: attack_enemy_cases)
    case idle
    then show ?thesis by (simp add: one_action_def)
  next
    case (kill room e d w1 flag)
    then show ?thesis by (simp add: one_action_def)
  next
    case (hit room e d r)
    then show ?thesis by (simp add: one_action_def)
  next
    case (fall room e d r w2)
    from heal_player_effect(4) [OF fall(6)]
    obtain new where out: "output_area s' = output_area s @
         [MsgLash (e_name e) d (e_hp e - d), MsgCounter (e_name e) r (hp (player s) - r),
          MsgSuccumb] @ new"
      and shape: "new = [MsgFullHealth] \<or> (\<exists>h v. new = [MsgPatch h v])"
      by auto
    let ?all = "[MsgLash (e_name e) d (e_hp e - d), MsgCounter (e_name e) r (hp (player s) - r),
          MsgSuccumb] @ new"
    from shape have "filter is_move_line ?all = [] \<and> one_action ?all"
    proof
      assume "new = [MsgFullHealth]"
      then show ?thesis by (simp add: one_action_def)
    next
      assume "\<exists>h v. new = [MsgPatch h v]"
      then obtain h v where new: "new = [MsgPatch h v]" by blast
      have "?all = [MsgLash (e_name e) d (e_hp e - d),
          MsgCounter (e_name e) r (hp (player s) - r)] @ [MsgSuccumb, MsgPatch h v]"
        using new by simp
      then have "\<exists>pre h v. ?all = pre @ [MsgSuccumb, MsgPatch h v]" by blast
      then show ?thesis using new by (simp add: one_action_def)
    qed
    with out show ?thesis by blast
  qed
qed


lemma pool_nonempty: "ENEMY_POOL \<noteq> []"
  by (simp add: ENEMY_POOL_def)

lemma choice_member: "choice xs w = Inr (x, w') \<Longrightarrow> x \<in> set xs"
  by (auto simp: choice_def split: if_splits)

lemma spawn_enemy_live: "has_live_enemy r \<Longrightarrow> spawn_enemy r w = Inr (r, w)"
  by (simp add: spawn_enemy_def)

lemma spawn_enemy_early:
  "\<not> has_live_enemy r \<Longrightarrow> readings w 0 < respawn_timer r \<Longrightarrow>
     spawn_enemy r w = Inr (r, snd (time_time w))"
  by (simp add: spawn_enemy_def Let_def time_time_def)

lemma spawn_enemy_due:
  assumes "\<not> has_live_enemy r" and "respawn_timer r \<le> readings w 0"
  shows "spawn_enemy r w =
     Inr (r\<lparr>enemy := Some (new_enemy
            (ENEMY_POOL ! (fst (next_draw (snd (time_time w))) mod length ENEMY_POOL)))\<rparr>,
          snd (next_draw (snd (time_time w))))"
  using assms pool_nonempty by (simp add: spawn_enemy_def Let_def time_time_def choice_def)

lemma spawn_enemy_effect:
  assumes res: "spawn_enemy r w = Inr (r', w')"
  shows "clock_later w w'"
    and "r' = r \<or>
         (\<not> has_live_enemy r \<and> respawn_timer r \<le> readings w 0 \<and>
          (\<exists>t\<in>set ENEMY_POOL. r' = r\<lparr>enemy := Some (new_enemy t)\<rparr>))"
proof -
  consider (live) "has_live_enemy r"
    | (early) "\<not> has_live_enemy r" "readings w 0 < respawn_timer r"
    | (due) "\<not> has_live_enemy r" "respawn_timer r \<le> readings w 0"
    by fastforce
  then have "clock_later w w' \<and> (r' = r \<or>
         (\<not> has_live_enemy r \<and> respawn_timer r \<le> readings w 0 \<and>
          (\<exists>t\<in>set ENEMY_POOL. r' = r\<lparr>enemy := Some (new_enemy t)\<rparr>)))"
  proof cases
    case live
    with res show ?thesis by (simp add: spawn_enemy_live clock_later_refl)
  next
    case early
    from spawn_enemy_early [OF early] res clock_later_tick [of w w]
    show ?thesis by auto
  next
    case due
    have nth: "ENEMY_POOL ! (fst (next_draw (snd (time_time w))) mod length ENEMY_POOL)
        \<in> set ENEMY_POOL"
      using pool_nonempty by simp
    have "clock_later w (snd (next_draw (snd (time_time w))))"
      by (rule clock_later_trans [OF clock_later_tick [of w w]])
         (simp_all add: clock_later_same next_draw_def)
    with spawn_enemy_due [OF due] res due nth show ?thesis by auto
  qed
  then show "clock_later w w'"
    and "r' = r \<or>
         (\<not> has_live_enemy r \<and> respawn_timer r \<le> readings w 0 \<and>
          (\<exists>t\<in>set ENEMY_POOL. r' = r\<lparr>enemy := Some (new_enemy t)\<rparr>))"
    by simp_all
qed

lemma look_around_cases:
  assumes res: "look_around s w = Inr (s', w')"
  obtains room room' new where
    "rooms s (location (player s)) = Some room"
    "spawn_enemy room w = Inr (room', w')"
    "s' = s\<lparr>rooms := (rooms s)(location (player s) \<mapsto> room'),
            output_area := output_area s @ MsgLocation (r_name room') # new\<rparr>"
    "filter is_move_line new = []" "filter is_attack_line new = []"
    "filter is_heal_line new = []"
proof -
  obtain room where room: "rooms s (location (player s)) = Some room"
    using res by (cases "rooms s (location (player s))") (auto simp: look_around_def)
  obtain room' w1 where sp: "spawn_enemy room w = Inr (room', w1)"
    using res room
    by (cases "spawn_enemy room w") (auto simp: look_around_def maybe_respawn_mob_def)
  let ?new = "MsgDescription (description room') #
       (if items room' \<noteq> [] then MsgItemsHeader # map MsgItem (items room') else []) @
       (case enemy room' of None \<Rightarrow> []
        | Some e \<Rightarrow> if is_alive e then [MsgHostile (e_name e) (e_hp e)] else []) @
       [MsgExits (map fst (filter (\<lambda>(ex, loc). truthy loc) (exits room')))]"
  have flt: "filter is_move_line ?new = []" "filter is_attack_line ?new = []"
    "filter is_heal_line ?new = []"
    by (auto simp: filter_empty_conv split: option.splits)
  from res room sp
  have "s' = s\<lparr>rooms := (rooms s)(location (player s) \<mapsto> room'),
            output_area := output_area s @ MsgLocation (r_name room') # ?new\<rparr>" and "w' = w1"
    by (cases s; simp add: look_around_def maybe_respawn_mob_def write_lines_def)+
  with room sp flt show thesis by (intro that [of room room' ?new]) simp_all
qed

lemma dead_or_respawned_weaken: "dead_preserved s s' \<Longrightarrow> dead_or_respawned w s s'"
  unfolding dead_preserved_def dead_or_respawned_def by blast

lemma dead_or_respawned_then:
  assumes "dead_or_respawned w s s1" and "dead_preserved s1 s2"
    and "location (player s2) = location (player s1)"
  shows "dead_or_respawned w s s2"
  unfolding dead_or_respawned_def
proof (intro allI impI)
  fix k r
  assume k: "rooms s k = Some r"
  with assms(1) obtain r1 where r1: "rooms s1 k = Some r1"
    and c1: "\<not> has_live_enemy r \<longrightarrow>
        (\<not> has_live_enemy r1 \<and> respawn_timer r1 = respawn_timer r) \<or>
        (respawn_timer r \<le> readings w 0 \<and> location (player s1) = k)"
    unfolding dead_or_respawned_def by blast
  from assms(2) r1 obtain r2 where r2: "rooms s2 k = Some r2"
    and c2: "\<not> has_live_enemy r1 \<longrightarrow> \<not> has_live_enemy r2 \<and> respawn_timer r2 = respawn_timer r1"
    unfolding dead_preserved_def by blast
  from c1 c2 assms(3)
  have "\<not> has_live_enemy r \<longrightarrow>
        (\<not> has_live_enemy r2 \<and> respawn_timer r2 = respawn_timer r) \<or>
        (respawn_timer r \<le> readings w 0 \<and> location (player s2) = k)"
    by auto
  with r2
  show "\<exists>r'. rooms s2 k = Some r' \<and>
      (\<not> has_live_enemy r \<longrightarrow>
        (\<not> has_live_enemy r' \<and> respawn_timer r' = respawn_timer r) \<or>
        (respawn_timer r \<le> readings w 0 \<and> location (player s2) = k))"
    by blast
qed

lemma look_around_effect:
  assumes res: "look_around s w = Inr (s', w')"
  shows "player s' = player s"
    and "dead_or_respawned w s s'"
    and "clock_later w w'"
    and "\<exists>new. output_area s' = output_area s @ new \<and> length (filter is_move_line new) = 1 \<and>
           filter is_attack_line new = [] \<and> filter is_heal_line new = []"
proof -
  from res obtain room room' new where
    room: "rooms s (location (player s)) = Some room"
    and sp: "spawn_enemy room w = Inr (room', w')"
    and s': "s' = s\<lparr>rooms := (rooms s)(location (player s) \<mapsto> room'),
            output_area := output_area s @ MsgLocation (r_name room') # new\<rparr>"
    and flt: "filter is_move_line new = []" "filter is_attack_line new = []"
      "filter is_heal_line new = []"
    by (rule look_around_cases)
  show "player s' = player s" using s' by simp
  show "clock_later w w'" using spawn_enemy_effect(1) [OF sp] .
  show "\<exists>new. output_area s' = output_area s @ new \<and> length (filter is_move_line new) = 1 \<and>
           filter is_attack_line new = [] \<and> filter is_heal_line new = []"
    using s' flt by simp
  show "dead_or_respawned w s s'"
    unfolding dead_or_respawned_def
  proof (intro allI impI)
    fix k r
    assume k: "rooms s k = Some r"
    show "\<exists>r'. rooms s' k = Some r' \<and>
      (\<not> has_live_enemy r \<longrightarrow>
        (\<not> has_live_enemy r' \<and> respawn_timer r' = respawn_timer r) \<or>
        (respawn_timer r \<le> readings w 0 \<and> location (player s') = k))"
    proof (cases "k = location (player s)")
      case False
      with k s' show ?thesis by simp
    next
      case True
      with k room have rr: "r = room" by simp
      from True s' have "rooms s' k = Some room'" and "location (player s') = k" by simp_all
      with spawn_enemy_effect(2) [OF sp] rr show ?thesis by auto
    qed
  qed
qed


lemma move_player_cases [consumes 2, case_names stay go]:
  assumes res: "move_player s direction w = Inr (s', w')"
    and room: "rooms s (location (player s)) = Some room"
  obtains
    (stay) "s' = s\<lparr>output_area := output_area s @ [MsgCantGo]\<rparr>" "w' = w"
  | (go) new_room_id where "map_of (exits room) direction = Some (Some new_room_id)"
      "look_around (s\<lparr>player := (player s)\<lparr>location := new_room_id\<rparr>\<rparr>) w = Inr (s', w')"
  using res room
  by (auto simp: move_player_def write_line_def split: option.splits)

lemma dead_or_respawned_rooms:
  "rooms s0 = rooms s \<Longrightarrow> dead_or_respawned w s0 s' \<Longrightarrow> dead_or_respawned w s s'"
  by (simp add: dead_or_respawned_def)

lemma move_player_effect:
  assumes res: "move_player s direction w = Inr (s', w')"
    and room: "rooms s (location (player s)) = Some room"
  shows "location (player s') = location (player s) \<or>
         map_of (exits room) direction = Some (Some (location (player s')))"
    and "dead_or_respawned w s s'"
    and "clock_later w w'"
    and "\<exists>new. output_area s' = output_area s @ new \<and> length (filter is_move_line new) \<le> 1 \<and>
           filter is_attack_line new = [] \<and> filter is_heal_line new = []"
proof -
  have "(location (player s') = location (player s) \<or>
         map_of (exits room) direction = Some (Some (location (player s')))) \<and>
        dead_or_respawned w s s' \<and> clock_later w w' \<and>
        (\<exists>new. output_area s' = output_area s @ new \<and> length (filter is_move_line new) \<le> 1 \<and>
           filter is_attack_line new = [] \<and> filter is_heal_line new = [])"
    using res room
  proof (cases rule: move_player_cases)
    case stay
    then show ?thesis
      by (simp add: clock_later_refl dead_or_respawned_weaken dead_preserved_same_rooms)
  next
    case (go new_room_id)
    let ?s0 = "s\<lparr>player := (player s)\<lparr>location := new_room_id\<rparr>\<rparr>"
    note eff = look_around_effect [OF go(2)]
    from eff(1) have loc: "location (player s') = new_room_id" by simp
    from eff(2) have dr: "dead_or_respawned w s s'"
      by (rule dead_or_respawned_rooms [rotated]) simp
    from eff(4) obtain new where "output_area s' = output_area s @ new"
      "length (filter is_move_line new) = 1" "filter is_attack_line new = []"
      "filter is_heal_line new = []"
      by auto
    then have "\<exists>new. output_area s' = output_area s @ new \<and>
        length (filter is_move_line new) \<le> 1 \<and>
        filter is_attack_line new = [] \<and> filter is_heal_line new = []"
      by (intro exI [of _ new]) simp
    with go(1) loc dr eff(3) show ?thesis by simp
  qed
  then show "location (player s') = location (player s) \<or>
         map_of (exits room) direction = Some (Some (location (player s')))"
    and "dead_or_respawned w s s'"
    and "clock_later w w'"
    and "\<exists>new. output_area s' = output_area s @ new \<and> length (filter is_move_line new) \<le> 1 \<and>
           filter is_attack_line new = [] \<and> filter is_heal_line new = []"
    by simp_all
qed

lemma probe_directions_effect:
  assumes res: "probe_directions n (exits room) s w = Inr (s', w')"
    and room: "rooms s (location (player s)) = Some room"
  shows "(location (player s') = location (player s) \<or>
          (\<exists>d. map_of (exits room) d = Some (Some (location (player s'))))) \<and>
         dead_or_respawned w s s' \<and> clock_later w w' \<and>
         (\<exists>new. output_area s' = output_area s @ new \<and> length (filter is_move_line new) \<le> 1 \<and>
            filter is_attack_line new = [] \<and> filter is_heal_line new = [])"
  using res room
proof (induction n arbitrary: s)
  case 0
  then show ?case
    by (simp add: clock_later_refl dead_or_respawned_weaken dead_preserved_refl)
next
  case (Suc n)
  let ?dir = "auto_move_directions ! auto_move_index s"
  let ?s1 = "s\<lparr>auto_move_index := (auto_move_index s + 1) mod length auto_move_directions\<rparr>"
  have same: "rooms ?s1 = rooms s" "location (player ?s1) = location (player s)"
    "output_area ?s1 = output_area s"
    by simp_all
  have room1: "rooms ?s1 (location (player ?s1)) = Some room"
    using Suc.prems(2) by simp
  from Suc.prems(1) have inrange: "auto_move_index s < length auto_move_directions"
    by (auto split: if_splits)
  show ?case
  proof (cases "case map_of (exits room) ?dir of None \<Rightarrow> False | Some loc \<Rightarrow> truthy loc")
    case True
    with Suc.prems(1) inrange have mv: "move_player ?s1 ?dir w = Inr (s', w')"
      by (simp add: Let_def)
    note eff = move_player_effect [OF mv room1]
    from eff(1) have "location (player s') = location (player s) \<or>
          (\<exists>d. map_of (exits room) d = Some (Some (location (player s'))))"
      by auto
    moreover from eff(2) have "dead_or_respawned w s s'"
      by (rule dead_or_respawned_rooms [rotated]) simp
    ultimately show ?thesis using eff(3) eff(4) by simp
  next
    case False
    with Suc.prems(1) inrange
    have rec: "probe_directions n (exits room) ?s1 w = Inr (s', w')"
      by (simp add: Let_def)
    from Suc.IH [OF rec room1]
    have "(location (player s') = location (player s) \<or>
          (\<exists>d. map_of (exits room) d = Some (Some (location (player s'))))) \<and>
         dead_or_respawned w ?s1 s' \<and> clock_later w w' \<and>
         (\<exists>new. output_area s' = output_area s @ new \<and> length (filter is_move_line new) \<le> 1 \<and>
            filter is_attack_line new = [] \<and> filter is_heal_line new = [])"
      by simp
    moreover have "dead_or_respawned w ?s1 s' \<Longrightarrow> dead_or_respawned w s s'"
      by (simp add: dead_or_respawned_def)
    ultimately show ?thesis by blast
  qed
qed

lemma one_action_nil: "one_action []"
  by (simp add: one_action_def)

lemma one_action_after:
  assumes "filter is_attack_line pre = []" and "filter is_heal_line pre = []"
    and "one_action new"
  shows "one_action (pre @ new)"
proof -
  from assms(3) have
    a: "length (filter is_attack_line new) \<le> 1" and h: "length (filter is_heal_line new) \<le> 1"
    and c: "length (filter is_attack_line new) + length (filter is_heal_line new) \<le> 1 \<or>
       (\<exists>pre' h v. new = pre' @ [MsgSuccumb, MsgPatch h v])"
    by (simp_all add: one_action_def)
  from c have "length (filter is_attack_line (pre @ new)) +
       length (filter is_heal_line (pre @ new)) \<le> 1 \<or>
       (\<exists>pre' h v. pre @ new = pre' @ [MsgSuccumb, MsgPatch h v])"
  proof
    assume "length (filter is_attack_line new) + length (filter is_heal_line new) \<le> 1"
    then show ?thesis using assms(1,2) by simp
  next
    assume "\<exists>pre' h v. new = pre' @ [MsgSuccumb, MsgPatch h v]"
    then obtain pre' h v where "new = pre' @ [MsgSuccumb, MsgPatch h v]" by blast
    then have "pre @ new = (pre @ pre') @ [MsgSuccumb, MsgPatch h v]" by simp
    then show ?thesis by blast
  qed
  with a h assms(1,2) show ?thesis by (simp add: one_action_def)
qed

lemma auto_attack_if_enemy_effect:
  assumes res: "auto_attack_if_enemy s w = Inr (s', w')"
  shows "location (player s') = location (player s)"
    and "dead_preserved s s'"
    and "clock_later w w'"
    and "\<exists>new. output_area s' = output_area s @ new \<and> filter is_move_line new = [] \<and>
           one_action new"
proof -
  obtain room where room: "rooms s (location (player s)) = Some room"
    using res by (cases "rooms s (location (player s))") (auto simp: auto_attack_if_enemy_def)
  have "location (player s') = location (player s) \<and> dead_preserved s s' \<and>
      clock_later w w' \<and>
      (\<exists>new. output_area s' = output_area s @ new \<and> filter is_move_line new = [] \<and>
           one_action new)"
  proof (cases "has_live_enemy room")
    case True
    with res room have "attack_enemy s w = Inr (s', w')"
      by (simp add: auto_attack_if_enemy_def)
    from attack_enemy_effect [OF this] show ?thesis by simp
  next
    case False
    with res room have "s' = s" "w' = w"
      by (simp_all add: auto_attack_if_enemy_def)
    then show ?thesis
      by (simp add: dead_preserved_refl clock_later_refl one_action_nil)
  qed
  then show "location (player s') = location (player s)"
    and "dead_preserved s s'"
    and "clock_later w w'"
    and "\<exists>new. output_area s' = output_area s @ new \<and> filter is_move_line new = [] \<and>
           one_action new"
    by simp_all
qed

section \<open>The automation policy, tick by tick\<close>

lemma auto_move_and_attack_effect:
  assumes res: "auto_move_and_attack s w = Inr (s', w')"
    and room: "rooms s (location (player s)) = Some room"
  shows "(location (player s') \<noteq> location (player s) \<longrightarrow>
            \<not> has_live_enemy room \<and> \<not> hp (player s) < max_hp (player s)) \<and>
         (location (player s') = location (player s) \<or>
            (\<exists>d. map_of (exits room) d = Some (Some (location (player s'))))) \<and>
         dead_or_respawned w s s' \<and> clock_later w w' \<and>
         (\<exists>new. output_area s' = output_area s @ new \<and> length (filter is_move_line new) \<le> 1 \<and>
            one_action new)"
proof -
  consider (fight) "has_live_enemy room"
    | (rest) "\<not> has_live_enemy room" "hp (player s) < max_hp (player s)"
    | (stuck) "\<not> has_live_enemy room" "\<not> hp (player s) < max_hp (player s)" "exits room = []"
    | (walk) "\<not> has_live_enemy room" "\<not> hp (player s) < max_hp (player s)" "exits room \<noteq> []"
    by blast
  then show ?thesis
  proof cases
    case fight
    with res room have "auto_attack_if_enemy s w = Inr (s', w')"
      by (simp add: auto_move_and_attack_def)
    note eff = auto_attack_if_enemy_effect [OF this]
    from eff(4) obtain new where "output_area s' = output_area s @ new"
      "filter is_move_line new = []" "one_action new" by blast
    then have "\<exists>new. output_area s' = output_area s @ new \<and>
        length (filter is_move_line new) \<le> 1 \<and> one_action new"
      by (intro exI [of _ new]) simp
    with eff(1,3) dead_or_respawned_weaken [OF eff(2)] show ?thesis by simp
  next
    case rest
    with res room have "heal_player s w = Inr (s', w')"
      by (simp add: auto_move_and_attack_def)
    note eff = heal_player_effect [OF this]
    from eff(4) obtain new where "output_area s' = output_area s @ new"
      "filter is_move_line new = []" "filter is_attack_line new = []"
      "length (filter is_heal_line new) \<le> 1" by blast
    then have "\<exists>new. output_area s' = output_area s @ new \<and>
        length (filter is_move_line new) \<le> 1 \<and> one_action new"
      by (intro exI [of _ new]) (simp add: one_action_def)
    with eff(1,3) dead_or_respawned_weaken [OF dead_preserved_same_rooms [OF eff(2)]]
    show ?thesis by simp
  next
    case stuck
    with res room have "s' = s" "w' = w"
      by (simp_all add: auto_move_and_attack_def)
    moreover have "\<exists>new. output_area s = output_area s @ new \<and>
        length (filter is_move_line new) \<le> 1 \<and> one_action new"
      by (intro exI [of _ "[]"]) (simp add: one_action_nil)
    ultimately show ?thesis
      by (simp add: clock_later_refl dead_or_respawned_weaken dead_preserved_refl)
  next
    case walk
    from walk res room obtain s1 w1 where
      pr: "probe_directions (length auto_move_directions) (exits room) s w = Inr (s1, w1)"
      and at: "auto_attack_if_enemy s1 w1 = Inr (s', w')"
      by (cases "probe_directions (length auto_move_directions) (exits room) s w")
         (auto simp: auto_move_and_attack_def)
    note p = probe_directions_effect [OF pr room]
    note a = auto_attack_if_enemy_effect [OF at]
    from p obtain new1 where n1: "output_area s1 = output_area s @ new1"
      "length (filter is_move_line new1) \<le> 1" "filter is_attack_line new1 = []"
      "filter is_heal_line new1 = []" by blast
    from a(4) obtain new2 where n2: "output_area s' = output_area s1 @ new2"
      "filter is_move_line new2 = []" "one_action new2" by blast
    have "output_area s' = output_area s @ (new1 @ new2)" using n1(1) n2(1) by simp
    moreover have "length (filter is_move_line (new1 @ new2)) \<le> 1" using n1(2) n2(2) by simp
    moreover have "one_action (new1 @ new2)" using n1(3,4) n2(3) by (rule one_action_after)
    ultimately have out: "\<exists>new. output_area s' = output_area s @ new \<and>
        length (filter is_move_line new) \<le> 1 \<and> one_action new"
      by blast
    have dr: "dead_or_respawned w s s'"
      using p a(1,2) by (intro dead_or_respawned_then [of w s s1 s']) simp_all
    have cl: "clock_later w w'"
      using p a(3) by (intro clock_later_trans [of w w1 w']) simp_all
    from p a(1) have "location (player s') = location (player s) \<or>
            (\<exists>d. map_of (exits room) d = Some (Some (location (player s'))))"
      by simp
    with walk(1,2) out dr cl show ?thesis by simp
  qed
qed

text \<open>
  Claim C8, as the code has it. One call of \<open>auto_move_and_attack\<close> that returns, for a
  player whose hit points do not exceed the maximum: the location changes only if the
  room has no live enemy and the hit points equal the maximum; the new location is the
  old one or the destination of one exit of the old room; and the lines written hold at
  most one room header, at most one attack line and at most one heal line. An attack and
  a heal happen in the same tick only when the counter-attack of that exchange brought
  the player to 0 or below and \<open>attack_enemy\<close> itself called \<open>heal_player\<close>: the heal
  line then comes last, right after the line of the fall.
\<close>

theorem tick_moves_and_acts_once:
  assumes res: "auto_move_and_attack s w = Inr (s', w')"
    and room: "rooms s (location (player s)) = Some room"
    and hp: "hp (player s) \<le> max_hp (player s)"
  shows "(location (player s') \<noteq> location (player s) \<longrightarrow>
            \<not> has_live_enemy room \<and> hp (player s) = max_hp (player s)) \<and>
         (location (player s') = location (player s) \<or>
            (\<exists>d. map_of (exits room) d = Some (Some (location (player s'))))) \<and>
         (\<exists>new. output_area s' = output_area s @ new \<and>
            length (filter is_move_line new) \<le> 1 \<and>
            length (filter is_attack_line new) \<le> 1 \<and>
            length (filter is_heal_line new) \<le> 1 \<and>
            (length (filter is_attack_line new) + length (filter is_heal_line new) \<le> 1 \<or>
             (\<exists>pre h v. new = pre @ [MsgSuccumb, MsgPatch h v])))"
  using auto_move_and_attack_effect [OF res room] hp
  unfolding one_action_def by force


lemma rooms_excerpt_courtyard [simp]:
  "rooms_excerpt ''outer_courtyard'' = Some outer_courtyard"
  by (simp add: rooms_excerpt_def)

lemma courtyard_fields [simp]:
  "enemy outer_courtyard = None" "respawn_timer outer_courtyard = 0"
  by (simp_all add: outer_courtyard_def Room_init_def)

lemma troll_fields [simp]:
  "e_name (new_enemy (ENEMY_POOL ! 4)) = ''Mountain Troll''"
  "attack_power (new_enemy (ENEMY_POOL ! 4)) = 10"
  "exp_reward (new_enemy (ENEMY_POOL ! 4)) = 60"
  "alive (new_enemy (ENEMY_POOL ! 4))"
  "e_hp (new_enemy (ENEMY_POOL ! 4)) = 120"
  by (simp_all add: new_enemy_def ENEMY_POOL_def)

lemma pool_length [simp]: "length ENEMY_POOL = 5"
  by (simp add: ENEMY_POOL_def)

lemma steady_env_fields [simp]:
  "readings (steady_env k t) n = t" "draws (steady_env k t) n = k"
  by (simp_all add: steady_env_def)

lemma tick_from_temple:
  "\<not> isl (auto_move_and_attack (started_game idle_hero rooms_excerpt) (steady_env 4 50)) \<and>
   location (player (fst (projr
     (auto_move_and_attack (started_game idle_hero rooms_excerpt) (steady_env 4 50))))) =
     ''outer_courtyard''"
proof -
  let ?s = "started_game idle_hero rooms_excerpt"
  let ?w = "steady_env 4 50"
  let ?s1 = "?s\<lparr>auto_move_index := 3\<rparr>"
  let ?s2 = "?s1\<lparr>player := (player ?s1)\<lparr>location := ''outer_courtyard''\<rparr>\<rparr>"
  let ?troll = "new_enemy (ENEMY_POOL ! 4)"
  have sp: "spawn_enemy outer_courtyard ?w = Inr (outer_courtyard\<lparr>enemy := Some ?troll\<rparr>, ?w)"
    using spawn_enemy_due [of outer_courtyard ?w]
    by (simp add: has_live_enemy_def)
  obtain s3 where look: "look_around ?s2 ?w = Inr (s3, ?w)"
    and s3: "player s3 = player ?s2"
      "rooms s3 = rooms_excerpt(''outer_courtyard'' \<mapsto> outer_courtyard\<lparr>enemy := Some ?troll\<rparr>)"
    using sp by (simp add: look_around_def maybe_respawn_mob_def write_lines_def)
  have mv: "move_player ?s1 ''east'' ?w = Inr (s3, ?w)"
    using look by (simp add: move_player_def)
  have pr: "probe_directions (length auto_move_directions) (exits temple_of_stillness) ?s ?w =
      Inr (s3, ?w)"
    using mv by (simp add: auto_move_directions_def truthy_def Let_def started_game_def)
  let ?room = "outer_courtyard\<lparr>enemy := Some ?troll\<rparr>"
  have room: "rooms s3 (location (player s3)) = Some ?room" using s3 by simp
  have en: "enemy ?room = Some ?troll" by simp
  have live: "is_alive ?troll" by (simp add: is_alive_def)
  have roll: "randint (base_attack (player s3) - 2) (base_attack (player s3) + 2) ?w = Inr (10, ?w)"
    using s3 by (simp add: randint_steady)
  have d: "(if (10::int) < 0 then 0 else 10) = 10" by simp
  have surv: "0 < e_hp ?troll - 10" by simp
  have at: "\<not> isl (attack_enemy s3 ?w) \<and>
      location (player (fst (projr (attack_enemy s3 ?w)))) = ''outer_courtyard''"
    using attack_enemy_survive [OF room en live roll d surv] s3
    by (simp add: randint_steady)
  have "auto_move_and_attack ?s ?w = attack_enemy s3 ?w"
    using pr room live
    by (simp add: auto_move_and_attack_def auto_attack_if_enemy_def has_live_enemy_def)
  with at show ?thesis by simp
qed


text \<open>
  One tick with an attack and a heal: the idle hero at 3 hit points stands before a live
  enemy, the tick attacks, the counter-attack of 5 fells the hero, and the self-heal of 9
  follows in the same call.
\<close>

theorem tick_attack_and_heal_counterexample:
  "\<not> isl (auto_move_and_attack (started_game (idle_hero\<lparr>hp := 3\<rparr>) (haunted_temple 100))
      (steady_env 4 50)) \<and>
   filter is_attack_line (output_area (fst (projr (auto_move_and_attack
      (started_game (idle_hero\<lparr>hp := 3\<rparr>) (haunted_temple 100)) (steady_env 4 50))))) =
     [MsgLash ''Anti Claws'' 10 90] \<and>
   filter is_heal_line (output_area (fst (projr (auto_move_and_attack
      (started_game (idle_hero\<lparr>hp := 3\<rparr>) (haunted_temple 100)) (steady_env 4 50))))) =
     [MsgPatch 9 7] \<and>
   hp (player (fst (projr (auto_move_and_attack
      (started_game (idle_hero\<lparr>hp := 3\<rparr>) (haunted_temple 100)) (steady_env 4 50))))) = 7"
proof -
  let ?s = "started_game (idle_hero\<lparr>hp := 3\<rparr>) (haunted_temple 100)"
  let ?w = "steady_env 4 50"
  let ?e = "(new_enemy (ENEMY_POOL ! 0))\<lparr>e_hp := 100\<rparr>"
  let ?room = "temple_of_stillness\<lparr>enemy := Some ?e\<rparr>"
  have room: "rooms ?s (location (player ?s)) = Some ?room" by simp
  have en: "enemy ?room = Some ?e" by simp
  have live: "is_alive ?e" by (simp add: is_alive_def)
  have roll: "randint (base_attack (player ?s) - 2) (base_attack (player ?s) + 2) ?w = Inr (10, ?w)"
    by (simp add: randint_steady)
  have survive: "0 < e_hp ?e - 10" by simp
  have d: "(if (10::int) < 0 then 0 else 10) = 10" by simp
  have tick: "auto_move_and_attack ?s ?w = attack_enemy ?s ?w"
    using room live
    by (simp add: auto_move_and_attack_def auto_attack_if_enemy_def has_live_enemy_def)
  show ?thesis
    unfolding tick
    using attack_enemy_survive [OF room en live roll d survive]
    by (simp add: randint_steady heal_player_def Let_def write_line_def)
qed

text \<open>
  The idle hero in the empty temple at full health: the tick walks east to the courtyard,
  where an enemy appears and one exchange follows.
\<close>

theorem tick_moves_and_acts_once_witness:
  "rooms (started_game idle_hero rooms_excerpt)
     (location (player (started_game idle_hero rooms_excerpt))) = Some temple_of_stillness \<and>
   hp (player (started_game idle_hero rooms_excerpt)) \<le>
     max_hp (player (started_game idle_hero rooms_excerpt)) \<and>
   \<not> isl (auto_move_and_attack (started_game idle_hero rooms_excerpt) (steady_env 4 50)) \<and>
   location (player (fst (projr
     (auto_move_and_attack (started_game idle_hero rooms_excerpt) (steady_env 4 50))))) =
     ''outer_courtyard'' \<and>
   \<not> has_live_enemy temple_of_stillness \<and>
   hp (player (started_game idle_hero rooms_excerpt)) =
     max_hp (player (started_game idle_hero rooms_excerpt)) \<and>
   (\<exists>new. output_area (fst (projr
        (auto_move_and_attack (started_game idle_hero rooms_excerpt) (steady_env 4 50)))) = new \<and>
      length (filter is_move_line new) \<le> 1 \<and>
      length (filter is_attack_line new) \<le> 1 \<and>
      length (filter is_heal_line new) \<le> 1)"
proof -
  let ?s = "started_game idle_hero rooms_excerpt"
  let ?t = "auto_move_and_attack ?s (steady_env 4 50)"
  have room: "rooms ?s (location (player ?s)) = Some temple_of_stillness" by simp
  have hp: "hp (player ?s) \<le> max_hp (player ?s)" by simp
  have ran: "\<not> isl ?t" and loc: "location (player (fst (projr ?t))) = ''outer_courtyard''"
    using tick_from_temple by simp_all
  from ran have ev: "?t = Inr (fst (projr ?t), snd (projr ?t))"
    by (cases ?t) simp_all
  have moved: "location (player (fst (projr ?t))) \<noteq> location (player ?s)"
    using loc by simp
  from tick_moves_and_acts_once [OF ev room hp] moved
  have "\<not> has_live_enemy temple_of_stillness \<and> hp (player ?s) = max_hp (player ?s) \<and>
    (\<exists>new. output_area (fst (projr ?t)) = new \<and>
      length (filter is_move_line new) \<le> 1 \<and>
      length (filter is_attack_line new) \<le> 1 \<and>
      length (filter is_heal_line new) \<le> 1)"
    by auto
  with room hp ran loc show ?thesis by blast
qed

subsection \<open>What a command or a tick does to the rooms\<close>

lemma use_class_skill_effect:
  assumes res: "use_class_skill s w = Inr (s', w')"
  shows "location (player s') = location (player s)"
    and "dead_preserved s s'"
    and "clock_later w w'"
proof -
  show "location (player s') = location (player s)"
    using res by (cases rule: use_class_skill_cases) simp_all
  show "dead_preserved s s'"
    using res
  proof (cases rule: use_class_skill_cases)
    case idle
    then show ?thesis by (simp add: dead_preserved_same_rooms)
  next
    case (kill room e w1)
    from kill(7) show ?thesis
      by (rule dead_preserved_update_live [OF kill(1) live_room [OF kill(2,3)]])
  next
    case (survive room e b)
    from survive(7) show ?thesis
      by (rule dead_preserved_update_live [OF survive(1) live_room [OF survive(2,3)]])
  qed
  show "clock_later w w'"
    using res
  proof (cases rule: use_class_skill_cases)
    case idle
    then show ?thesis by (simp add: clock_later_refl)
  next
    case (kill room e w1)
    then show ?thesis by (simp add: clock_later_tick)
  next
    case (survive room e b)
    then show ?thesis by (simp add: clock_later_same)
  qed
qed

lemma pickup_item_effect:
  assumes res: "pickup_item s item_name = Inr s'"
  shows "dead_preserved s s'"
proof -
  obtain room where room: "rooms s (location (player s)) = Some room"
    using res by (cases "rooms s (location (player s))") (auto simp: pickup_item_def)
  show ?thesis
  proof (cases "item_name \<in> set (items room)")
    case False
    with res room show ?thesis
      by (auto simp: pickup_item_def write_line_def dead_preserved_same_rooms)
  next
    case True
    with res room
    have "rooms s' = (rooms s)(location (player s) \<mapsto>
        room\<lparr>items := remove1 item_name (items room)\<rparr>)"
      by (auto simp: pickup_item_def write_line_def)
    then show ?thesis
      by (intro dead_preserved_update_same [OF room]) simp_all
  qed
qed

lemma drop_item_effect:
  assumes res: "drop_item s item_name = Inr s'"
  shows "dead_preserved s s'"
proof (cases "item_name \<in> set (inventory (player s))")
  case False
  with res show ?thesis
    by (auto simp: drop_item_def write_line_def dead_preserved_same_rooms)
next
  case True
  with res obtain room where room: "rooms s (location (player s)) = Some room"
    by (cases "rooms s (location (player s))") (auto simp: drop_item_def)
  with res True
  have "rooms s' = (rooms s)(location (player s) \<mapsto> room\<lparr>items := items room @ [item_name]\<rparr>)"
    by (auto simp: drop_item_def write_line_def)
  then show ?thesis
    by (intro dead_preserved_update_same [OF room]) simp_all
qed

lemma use_item_rooms:
  assumes "use_item s item_name w = Inr (s', w')"
  shows "rooms s' = rooms s" and "readings w' = readings w"
  using assms randint_readings [of 20 40 w]
  by (auto simp: use_item_def write_line_def Let_def split: if_splits sum.splits)

lemma show_tasks_effect: "show_tasks s = Inr s' \<Longrightarrow> rooms s' = rooms s"
  by (auto simp: show_tasks_def write_line_def split: option.splits)

text \<open>The commands that look at a room, and so may respawn its enemy.\<close>

lemma execute_command_effect:
  assumes res: "execute_command c s w = Inr (s', w')"
  shows "clock_later w w'"
    and "dead_or_respawned w s s'"
    and "c \<noteq> Look \<Longrightarrow> (\<forall>d. c \<noteq> Move d) \<Longrightarrow> dead_preserved s s'"
proof -
  have "clock_later w w' \<and> dead_or_respawned w s s' \<and>
      (c \<noteq> Look \<longrightarrow> (\<forall>d. c \<noteq> Move d) \<longrightarrow> dead_preserved s s')"
  proof (cases c)
    case Help
    with res show ?thesis
      by (auto simp: command_help_def write_lines_def clock_later_refl
          dead_or_respawned_weaken dead_preserved_same_rooms)
  next
    case Look
    with res look_around_effect [of s w s' w'] show ?thesis by simp
  next
    case (Move d)
    with res have mv: "move_player s d w = Inr (s', w')" by simp
    then obtain room where "rooms s (location (player s)) = Some room"
      by (cases "rooms s (location (player s))") (auto simp: move_player_def)
    from move_player_effect [OF mv this] Move show ?thesis by simp
  next
    case Attack
    with res attack_enemy_effect [of s w s' w'] show ?thesis
      by (simp add: dead_or_respawned_weaken)
  next
    case Heal
    with res heal_player_effect [of s w s' w'] show ?thesis
      by (simp add: dead_or_respawned_weaken dead_preserved_same_rooms)
  next
    case Stats
    with res show ?thesis
      by (auto simp: write_line_def clock_later_refl
          dead_or_respawned_weaken dead_preserved_same_rooms)
  next
    case (Pickup x)
    with res pickup_item_effect [of s x] show ?thesis
      by (auto simp: clock_later_refl dead_or_respawned_weaken split: sum.splits)
  next
    case (Drop x)
    with res drop_item_effect [of s x] show ?thesis
      by (auto simp: clock_later_refl dead_or_respawned_weaken split: sum.splits)
  next
    case (Use x)
    with res use_item_rooms [of s x w s' w'] show ?thesis
      by (simp add: clock_later_same dead_or_respawned_weaken dead_preserved_same_rooms)
  next
    case Skill
    with res use_class_skill_effect [of s w s' w'] show ?thesis
      by (simp add: dead_or_respawned_weaken)
  next
    case TaskList
    with res show_tasks_effect [of s] show ?thesis
      by (auto simp: clock_later_refl dead_or_respawned_weaken dead_preserved_same_rooms
          split: sum.splits)
  next
    case Unknown
    with res show ?thesis
      by (auto simp: write_line_def clock_later_refl
          dead_or_respawned_weaken dead_preserved_same_rooms)
  qed
  then show "clock_later w w'" and "dead_or_respawned w s s'"
    and "c \<noteq> Look \<Longrightarrow> (\<forall>d. c \<noteq> Move d) \<Longrightarrow> dead_preserved s s'"
    by simp_all
qed

lemma handle_event_effect:
  assumes res: "handle_event ev s w = Inr (s', w')"
  shows "clock_later w w'"
    and "dead_or_respawned w s s'"
    and "ev \<noteq> Command Look \<Longrightarrow> (\<forall>d. ev \<noteq> Command (Move d)) \<Longrightarrow> ev \<noteq> Tick \<Longrightarrow>
           dead_preserved s s'"
proof -
  have "clock_later w w' \<and> dead_or_respawned w s s' \<and>
      (ev \<noteq> Command Look \<longrightarrow> (\<forall>d. ev \<noteq> Command (Move d)) \<longrightarrow> ev \<noteq> Tick \<longrightarrow>
           dead_preserved s s')"
  proof (cases ev)
    case (Command c)
    with res execute_command_effect [of c s w s' w'] show ?thesis by simp
  next
    case Tick
    with res have t: "auto_move_and_attack s w = Inr (s', w')" by simp
    then obtain room where "rooms s (location (player s)) = Some room"
      by (cases "rooms s (location (player s))") (auto simp: auto_move_and_attack_def)
    from auto_move_and_attack_effect [OF t this] Tick show ?thesis by simp
  qed
  then show "clock_later w w'" and "dead_or_respawned w s s'"
    and "ev \<noteq> Command Look \<Longrightarrow> (\<forall>d. ev \<noteq> Command (Move d)) \<Longrightarrow> ev \<noteq> Tick \<Longrightarrow>
           dead_preserved s s'"
    by simp_all
qed

section \<open>Death and respawn\<close>

lemma run_stays_dead:
  assumes "run evs s w = Inr (s', w')"
    and "rooms s k = Some r" and "\<not> has_live_enemy r"
    and "\<forall>n. readings w n < respawn_timer r"
  shows "\<exists>r'. rooms s' k = Some r' \<and> \<not> has_live_enemy r' \<and> respawn_timer r' = respawn_timer r"
  using assms
proof (induction evs arbitrary: s w r)
  case Nil
  then show ?case by simp
next
  case (Cons ev evs)
  from Cons.prems(1) obtain s1 w1 where
    step: "handle_event ev s w = Inr (s1, w1)" and rest: "run evs s1 w1 = Inr (s', w')"
    by (cases "handle_event ev s w") auto
  note eff = handle_event_effect [OF step]
  from Cons.prems(4) have "\<not> respawn_timer r \<le> readings w 0"
    by (simp add: not_le)
  with eff(2) Cons.prems(2,3) obtain r1 where
    r1: "rooms s1 k = Some r1" "\<not> has_live_enemy r1" "respawn_timer r1 = respawn_timer r"
    unfolding dead_or_respawned_def by blast
  from eff(1) obtain j where "\<forall>n. readings w1 n = readings w (n + j)"
    unfolding clock_later_def by blast
  with Cons.prems(4) r1(3) have "\<forall>n. readings w1 n < respawn_timer r1" by simp
  from Cons.IH [OF rest r1(1,2) this] r1(3) show ?case by simp
qed

lemma handle_mob_death_effect:
  "handle_mob_death r0 w = Inr (r1, w1) \<Longrightarrow>
     enemy r1 = None \<and> respawn_timer r1 = readings w 0 + 10"
  by (auto simp: handle_mob_death_def time_time_def RESPAWN_TIME_def split: option.splits)

lemma choice_any:
  assumes "t \<in> set xs"
  shows "\<exists>w'. choice xs w' = Inr (t, snd (next_draw w'))"
proof -
  from assms obtain i where i: "i < length xs" "xs ! i = t"
    by (auto simp: in_set_conv_nth)
  let ?w = "\<lparr>draws = (\<lambda>n. i), readings = (\<lambda>n. 0)\<rparr>"
  from i assms have "choice xs ?w = Inr (t, snd (next_draw ?w))"
    by (auto simp: choice_def next_draw_def)
  then show ?thesis by blast
qed

text \<open>
  Claim C7. For a room \<open>k\<close> without a live enemy (after \<open>handle_mob_death\<close> it has no
  enemy at all, and the deadline is the clock reading plus 10): an attack or a skill use
  there writes its one line and changes nothing; after any run of commands and ticks that
  returns, while every clock reading is before the deadline, the room still has no live
  enemy and the same deadline; a live enemy is in the room after one event only if that
  event is a look, a move or a tick that ends with the player in that room (the events that
  call \<open>maybe_respawn_mob\<close> on it) and the clock reading is at or past the deadline.
  \<open>maybe_respawn_mob\<close> returns a room with a live enemy as it is; on a room without
  one it reads the clock and, before the deadline, changes nothing, and from the deadline
  on puts in a new enemy made from an entry of \<open>ENEMY_POOL\<close>, each entry being chosen
  for some draw. How likely each entry is lies outside this model.
\<close>

theorem dead_enemy_until_respawn:
  assumes room: "rooms s k = Some r" and dead: "\<not> has_live_enemy r"
  shows "(location (player s) = k \<longrightarrow>
            attack_enemy s w = Inr (s\<lparr>output_area := output_area s @ [MsgNothingToAttack]\<rparr>, w) \<and>
            use_class_skill s w = Inr (s\<lparr>output_area := output_area s @ [MsgNoEnemyForSkill]\<rparr>, w)) \<and>
         (\<forall>evs s' w'. run evs s w = Inr (s', w') \<and> (\<forall>n. readings w n < respawn_timer r) \<longrightarrow>
            (\<exists>r'. rooms s' k = Some r' \<and> \<not> has_live_enemy r' \<and>
               respawn_timer r' = respawn_timer r)) \<and>
         (\<forall>ev s' w' r'. handle_event ev s w = Inr (s', w') \<and> rooms s' k = Some r' \<and>
            has_live_enemy r' \<longrightarrow>
            respawn_timer r \<le> readings w 0 \<and> location (player s') = k \<and>
            (ev = Command Look \<or> (\<exists>d. ev = Command (Move d)) \<or> ev = Tick)) \<and>
         (readings w 0 < respawn_timer r \<longrightarrow>
            maybe_respawn_mob r w = Inr (r, snd (time_time w))) \<and>
         (respawn_timer r \<le> readings w 0 \<longrightarrow>
            (\<exists>t\<in>set ENEMY_POOL. maybe_respawn_mob r w =
               Inr (r\<lparr>enemy := Some (new_enemy t)\<rparr>, snd (next_draw (snd (time_time w)))))) \<and>
         (\<forall>t\<in>set ENEMY_POOL. \<exists>w0. choice ENEMY_POOL w0 = Inr (t, snd (next_draw w0))) \<and>
         (\<forall>r0. has_live_enemy r0 \<longrightarrow> maybe_respawn_mob r0 w = Inr (r0, w)) \<and>
         (\<forall>r0 r1 w1. handle_mob_death r0 w = Inr (r1, w1) \<longrightarrow>
            \<not> has_live_enemy r1 \<and> enemy r1 = None \<and> respawn_timer r1 = readings w 0 + 10)"
proof (intro conjI)
  show "location (player s) = k \<longrightarrow>
            attack_enemy s w = Inr (s\<lparr>output_area := output_area s @ [MsgNothingToAttack]\<rparr>, w) \<and>
            use_class_skill s w = Inr (s\<lparr>output_area := output_area s @ [MsgNoEnemyForSkill]\<rparr>, w)"
    using room dead attack_enemy_idle [of s r w] use_class_skill_idle [of s r w] by auto
  show "\<forall>evs s' w'. run evs s w = Inr (s', w') \<and> (\<forall>n. readings w n < respawn_timer r) \<longrightarrow>
            (\<exists>r'. rooms s' k = Some r' \<and> \<not> has_live_enemy r' \<and>
               respawn_timer r' = respawn_timer r)"
    using run_stays_dead [OF _ room dead] by blast
  show "\<forall>ev s' w' r'. handle_event ev s w = Inr (s', w') \<and> rooms s' k = Some r' \<and>
            has_live_enemy r' \<longrightarrow>
            respawn_timer r \<le> readings w 0 \<and> location (player s') = k \<and>
            (ev = Command Look \<or> (\<exists>d. ev = Command (Move d)) \<or> ev = Tick)"
  proof (intro allI impI)
    fix ev s' w' r'
    assume a: "handle_event ev s w = Inr (s', w') \<and> rooms s' k = Some r' \<and> has_live_enemy r'"
    then have step: "handle_event ev s w = Inr (s', w')" and r': "rooms s' k = Some r'"
      and live: "has_live_enemy r'" by simp_all
    note eff = handle_event_effect [OF step]
    from eff(2) room dead r' live
    have due: "respawn_timer r \<le> readings w 0 \<and> location (player s') = k"
      unfolding dead_or_respawned_def by fastforce
    have "ev = Command Look \<or> (\<exists>d. ev = Command (Move d)) \<or> ev = Tick"
    proof (rule ccontr)
      assume "\<not> (ev = Command Look \<or> (\<exists>d. ev = Command (Move d)) \<or> ev = Tick)"
      then have "dead_preserved s s'" by (intro eff(3)) auto
      with room dead r' live show False unfolding dead_preserved_def by fastforce
    qed
    with due show "respawn_timer r \<le> readings w 0 \<and> location (player s') = k \<and>
            (ev = Command Look \<or> (\<exists>d. ev = Command (Move d)) \<or> ev = Tick)"
      by simp
  qed
  show "readings w 0 < respawn_timer r \<longrightarrow>
            maybe_respawn_mob r w = Inr (r, snd (time_time w))"
    using dead by (simp add: maybe_respawn_mob_def spawn_enemy_early)
  show "respawn_timer r \<le> readings w 0 \<longrightarrow>
            (\<exists>t\<in>set ENEMY_POOL. maybe_respawn_mob r w =
               Inr (r\<lparr>enemy := Some (new_enemy t)\<rparr>, snd (next_draw (snd (time_time w)))))"
  proof
    assume due: "respawn_timer r \<le> readings w 0"
    have "ENEMY_POOL ! (fst (next_draw (snd (time_time w))) mod length ENEMY_POOL)
        \<in> set ENEMY_POOL"
      using pool_nonempty by simp
    with spawn_enemy_due [OF dead due]
    show "\<exists>t\<in>set ENEMY_POOL. maybe_respawn_mob r w =
               Inr (r\<lparr>enemy := Some (new_enemy t)\<rparr>, snd (next_draw (snd (time_time w))))"
      unfolding maybe_respawn_mob_def by blast
  qed
  show "\<forall>t\<in>set ENEMY_POOL. \<exists>w0. choice ENEMY_POOL w0 = Inr (t, snd (next_draw w0))"
    by (intro ballI choice_any)
  show "\<forall>r0. has_live_enemy r0 \<longrightarrow> maybe_respawn_mob r0 w = Inr (r0, w)"
    by (simp add: maybe_respawn_mob_def spawn_enemy_live)
  show "\<forall>r0 r1 w1. handle_mob_death r0 w = Inr (r1, w1) \<longrightarrow>
            \<not> has_live_enemy r1 \<and> enemy r1 = None \<and> respawn_timer r1 = readings w 0 + 10"
    using handle_mob_death_effect by (auto simp: has_live_enemy_def)
qed


lemma cleared_temple_room [simp]:
  "cleared_temple d ''temple_of_stillness'' =
     Some (temple_of_stillness\<lparr>enemy := None, respawn_timer := d\<rparr>)"
  by (simp add: cleared_temple_def)

text \<open>
  The temple cleared with deadline 60: at clock 50 an attack finds nothing, a run of an
  attack and a look leaves it empty, and the respawn check changes nothing; at clock 70
  the respawn check puts an enemy of the pool in.
\<close>

theorem dead_enemy_until_respawn_witness:
  "rooms (started_game idle_hero (cleared_temple 60)) ''temple_of_stillness'' =
     Some (temple_of_stillness\<lparr>enemy := None, respawn_timer := 60\<rparr>) \<and>
   \<not> has_live_enemy (temple_of_stillness\<lparr>enemy := None, respawn_timer := 60\<rparr>) \<and>
   attack_enemy (started_game idle_hero (cleared_temple 60)) (steady_env 4 50) =
     Inr ((started_game idle_hero (cleared_temple 60))\<lparr>output_area := [MsgNothingToAttack]\<rparr>,
          steady_env 4 50) \<and>
   \<not> isl (run [Command Attack, Command Look] (started_game idle_hero (cleared_temple 60))
      (steady_env 4 50)) \<and>
   (\<exists>r'. rooms (fst (projr (run [Command Attack, Command Look]
        (started_game idle_hero (cleared_temple 60)) (steady_env 4 50)))) ''temple_of_stillness'' =
        Some r' \<and> \<not> has_live_enemy r' \<and> respawn_timer r' = 60) \<and>
   maybe_respawn_mob (temple_of_stillness\<lparr>enemy := None, respawn_timer := 60\<rparr>) (steady_env 4 50) =
     Inr (temple_of_stillness\<lparr>enemy := None, respawn_timer := 60\<rparr>, steady_env 4 50) \<and>
   (\<exists>t\<in>set ENEMY_POOL.
      maybe_respawn_mob (temple_of_stillness\<lparr>enemy := None, respawn_timer := 60\<rparr>)
        (steady_env 4 70) =
      Inr ((temple_of_stillness\<lparr>enemy := None, respawn_timer := 60\<rparr>)
             \<lparr>enemy := Some (new_enemy t)\<rparr>, steady_env 4 70))"
proof -
  let ?s = "started_game idle_hero (cleared_temple 60)"
  let ?r = "temple_of_stillness\<lparr>enemy := None, respawn_timer := 60\<rparr>"
  let ?k = "''temple_of_stillness''"
  let ?w = "steady_env 4 50"
  let ?v = "steady_env 4 70"
  let ?evs = "[Command Attack, Command Look]"
  have room: "rooms ?s ?k = Some ?r" by simp
  have dead: "\<not> has_live_enemy ?r" by (simp add: has_live_enemy_def)
  note early = dead_enemy_until_respawn [OF room dead, of ?w]
  note late = dead_enemy_until_respawn [OF room dead, of ?v]
  have here: "location (player ?s) = ?k" by simp
  from early here
  have a1: "attack_enemy ?s ?w = Inr (?s\<lparr>output_area := [MsgNothingToAttack]\<rparr>, ?w)"
    by simp
  have sp: "spawn_enemy ?r ?w = Inr (?r, ?w)"
    using spawn_enemy_early [OF dead, of ?w] by simp
  have ran: "\<not> isl (run ?evs ?s ?w)"
    using a1 sp by (simp add: look_around_def maybe_respawn_mob_def)
  then have ev: "run ?evs ?s ?w = Inr (fst (projr (run ?evs ?s ?w)), snd (projr (run ?evs ?s ?w)))"
    by (cases "run ?evs ?s ?w") simp_all
  have before: "\<forall>n. readings ?w n < respawn_timer ?r" by simp
  from early [THEN conjunct2, THEN conjunct1, rule_format, OF conjI [OF ev before]]
  have a2: "\<exists>r'. rooms (fst (projr (run ?evs ?s ?w))) ?k = Some r' \<and> \<not> has_live_enemy r' \<and>
      respawn_timer r' = 60"
    by simp
  from early have a3: "maybe_respawn_mob ?r ?w = Inr (?r, ?w)"
    by simp
  from late have a4: "\<exists>t\<in>set ENEMY_POOL. maybe_respawn_mob ?r ?v =
      Inr (?r\<lparr>enemy := Some (new_enemy t)\<rparr>, ?v)"
    by simp
  from room dead a1 ran a2 a3 a4 show ?thesis by blast
qed

end
